(* ===== verification/PZDR_Prelude.thy ===== *)
theory PZDR_Prelude
  imports Main "HOL-Library.Word" "HOL-Library.Char_ord" "HOL-Library.List_Lexorder"
begin

text \<open>
  What every component of the development shares: the names of the machine types, the result type
  of fallible Rust functions with the \<open>?\<close> operator, strings as lists of UTF-8 bytes, and the lemma collection \<open>result_iff\<close>.

  Conventions: a Rust \<open>Result<T, E>\<close> is \<open>'e + 't\<close> with \<open>Inl\<close> for \<open>Err\<close>; a computation that may
  panic or run for ever has type \<open>'a option\<close>, \<open>None\<close> meaning that the call never returns. A
  \<open>usize\<close> that counts the elements of a vector or a slice is a \<open>nat\<close>; a \<open>usize\<close> or \<open>u64\<close> whose
  wrap-around matters is a \<^typ>\<open>64 word\<close>.
\<close>

unbundle bit_operations_syntax

section \<open>Machine types\<close>

type_synonym byte = "8 word"
type_synonym bytes = "byte list"
type_synonym u16 = "16 word"
type_synonym u32 = "32 word"
type_synonym u64 = "64 word"
type_synonym i64 = "64 word"
type_synonym usize = "64 word"

lemma ucast_u32_inject [simp]: "(ucast a :: u64) = ucast b \<longleftrightarrow> a = (b :: u32)"
proof
  have "(ucast (ucast x :: u64) :: u32) = x" for x :: u32
    by (rule bit_word_eqI) (simp add: bit_simps)
  then show "(ucast a :: u64) = ucast b \<Longrightarrow> a = b" by metis
qed simp

section \<open>Results and the question-mark operator\<close>

named_theorems result_iff \<open>when a chain of fallible steps succeeds or fails\<close>

definition rbind :: "'e + 'a \<Rightarrow> ('a \<Rightarrow> 'e + 'b) \<Rightarrow> 'e + 'b" where
  "rbind r f = (case r of Inl e \<Rightarrow> Inl e | Inr x \<Rightarrow> f x)"

definition ok_or :: "'e \<Rightarrow> 'a option \<Rightarrow> 'e + 'a" where
  "ok_or e x = (case x of None \<Rightarrow> Inl e | Some y \<Rightarrow> Inr y)"

definition ensure :: "bool \<Rightarrow> 'e \<Rightarrow> 'e + unit" where
  "ensure b e = (if b then Inr () else Inl e)"

lemma rbind_simps [simp]:
  "rbind (Inl e) f = Inl e"
  "rbind (Inr x) f = f x"
  by (simp_all add: rbind_def)

lemma ok_or_simps [simp]:
  "ok_or e None = Inl e"
  "ok_or e (Some y) = Inr y"
  by (simp_all add: ok_or_def)

lemma ensure_simps [simp]:
  "ensure True e = Inr ()"
  "ensure False e = Inl e"
  by (simp_all add: ensure_def)

lemma rbind_Inr_iff [result_iff]: "rbind r f = Inr y \<longleftrightarrow> (\<exists>x. r = Inr x \<and> f x = Inr y)"
  by (cases r) simp_all

lemma rbind_Inl_iff [result_iff]:
  "rbind r f = Inl e \<longleftrightarrow> r = Inl e \<or> (\<exists>x. r = Inr x \<and> f x = Inl e)"
  by (cases r) auto

lemma ok_or_Inr_iff [result_iff]: "ok_or e x = Inr y \<longleftrightarrow> x = Some y"
  by (cases x) simp_all

lemma ok_or_Inl_iff [result_iff]: "ok_or e x = Inl e' \<longleftrightarrow> x = None \<and> e' = e"
  by (cases x) auto

lemma ensure_Inr_iff [result_iff]: "ensure b e = Inr u \<longleftrightarrow> b"
  by (simp add: ensure_def)

lemma ensure_Inl_iff [result_iff]: "ensure b e = Inl e' \<longleftrightarrow> \<not> b \<and> e' = e"
  by (auto simp: ensure_def)

lemma rbind_cong [fundef_cong]:
  "r = r' \<Longrightarrow> (\<And>x. r' = Inr x \<Longrightarrow> f x = g x) \<Longrightarrow> rbind r f = rbind r' g"
  by (cases r') simp_all

section \<open>Strings as UTF-8 bytes\<close>

text \<open>
  A Rust \<open>String\<close> is its UTF-8 encoding, so it is a list of 8-bit characters here and its length is
  Rust's \<open>len()\<close>. \<open>as_bytes\<close> reads the same bytes as words.
\<close>

definition as_bytes :: "string \<Rightarrow> bytes" where
  "as_bytes s = map of_char s"

lemma unat_of_char_byte: "unat (of_char c :: byte) = of_char c"
proof -
  have lt: "(of_char c :: nat) < 2 ^ 8"
    using of_char_mod_256 [of c, where 'a = nat] mod_less_divisor [of 256 "of_char c :: nat"]
    by simp
  have "(of_char c :: byte) = word_of_nat (of_char c)"
    by (rule of_nat_of_char [symmetric])
  with lt show ?thesis by (simp add: unat_of_nat)
qed

lemma inj_of_char_byte: "inj (of_char :: char \<Rightarrow> byte)"
proof (rule injI)
  fix c d :: char
  assume "(of_char c :: byte) = of_char d"
  then have "(of_char c :: nat) = of_char d"
    by (metis unat_of_char_byte)
  then show "c = d" by (rule of_char_eqI)
qed

lemma as_bytes_inject [simp]: "as_bytes s = as_bytes t \<longleftrightarrow> s = t"
  by (simp add: as_bytes_def inj_map_eq_map inj_of_char_byte)

lemma length_as_bytes [simp]: "length (as_bytes s) = length s"
  by (simp add: as_bytes_def)

text \<open>Bytes read as text.\<close>

definition copy_text :: "bytes \<Rightarrow> string" where
  "copy_text b = map (\<lambda>x. char_of (unat x)) b"

lemma of_char_byte: "(of_char (char_of (unat x)) :: byte) = x"
proof -
  have "unat x < 256" using unsigned_less [of x] by simp
  then have "unat (of_char (char_of (unat x)) :: byte) = unat x"
    by (simp add: unat_of_char_byte)
  then show ?thesis by (simp add: word_unat_eq_iff)
qed

lemma as_bytes_copy [simp]: "as_bytes (copy_text b) = b"
  by (simp add: as_bytes_def copy_text_def comp_def of_char_byte)

lemma copy_text_inject [simp]: "copy_text a = copy_text b \<longleftrightarrow> a = b"
  by (metis as_bytes_copy)

lemma length_copy_text [simp]: "length (copy_text b) = length b"
  by (simp add: copy_text_def)

end
