(* ===== verification/Transparency.thy ===== *)
theory Transparency
  imports PZDR_Prelude "HOL-Library.While_Combinator"
begin

text \<open>
  The RFC 6962 transparency log of \<open>services/pzdr-enclave/src/transparency.rs\<close>: leaf and node
  hashing, the Merkle tree head, inclusion and consistency proofs, the append-only log and the two
  verifiers. SHA-256 is the crate \<open>sha2\<close>; it is the parameter \<open>sha\<close> of every definition that
  hashes. The generators are defined as the code recurses, with \<open>None\<close> for a recursion that never
  returns; the verifiers are the code's index-shifting loops.
\<close>

section \<open>Hashing\<close>

type_synonym hash = bytes
type_synonym sha = "bytes \<Rightarrow> bytes"

definition leaf_hash :: "sha \<Rightarrow> bytes \<Rightarrow> hash" where
  "leaf_hash sha entry = sha (0x00 # entry)"

definition node_hash :: "sha \<Rightarrow> hash \<Rightarrow> hash \<Rightarrow> hash" where
  "node_hash sha l r = sha (0x01 # l @ r)"

section \<open>The split point\<close>

text \<open>
  \<open>split\<close> doubles \<open>k\<close> from 1 while it is below \<open>n\<close> and returns half of it. On 64-bit words the
  shift drops the top bit, so the loop of the code stops only up to \<open>2 ^ 63\<close>; \<open>split_w\<close> keeps the
  word, \<open>split_n\<close> is the same loop on the lengths of slices.
\<close>

partial_function (option) split_loop :: "usize \<Rightarrow> usize \<Rightarrow> usize option" where
  "split_loop n k = (if k < n then split_loop n (push_bit 1 k) else Some k)"

definition split_w :: "usize \<Rightarrow> usize option" where
  "split_w n = map_option (drop_bit 1) (split_loop n 1)"

definition split_n :: "nat \<Rightarrow> nat" where
  "split_n n = while (\<lambda>k. k < n) (\<lambda>k. 2 * k) 1 div 2"

lemma while_double:
  assumes "k = 2 ^ i" "k < n"
  shows "\<exists>j. while (\<lambda>k. k < n) (\<lambda>k. 2 * k) k = 2 * 2 ^ j \<and> 2 ^ j < n \<and> n \<le> 2 * (2 ^ j :: nat)"
  using assms
proof (induction "n - k" arbitrary: k i rule: less_induct)
  case less
  have unf: "while (\<lambda>k. k < n) (\<lambda>k. 2 * k) k = while (\<lambda>k. k < n) (\<lambda>k. 2 * k) (2 * k)"
    using less.prems by (subst while_unfold) simp
  show ?case
  proof (cases "2 * k < n")
    case True
    have "0 < k" using less.prems(1) by simp
    then have "n - 2 * k < n - k" using less.prems(2) by arith
    from less.hyps [OF this, of "Suc i"] less.prems True unf show ?thesis by simp
  next
    case False
    then have "while (\<lambda>k. k < n) (\<lambda>k. 2 * k) (2 * k) = 2 * k"
      by (subst while_unfold) simp
    with False less.prems unf show ?thesis
      by (intro exI [of _ i]) simp
  qed
qed

lemma split_n_small [simp]: "split_n 0 = 0" "split_n (Suc 0) = 0"
  by (simp_all add: split_n_def while_unfold)

lemma split_n_obtain:
  assumes "2 \<le> n"
  obtains j where "split_n n = 2 ^ j" "2 ^ j < n" "n \<le> 2 * 2 ^ j"
  using while_double [of 1 0 n] assms by (auto simp: split_n_def)

lemma split_n_bounds:
  assumes "2 \<le> n"
  shows "0 < split_n n" "split_n n < n"
  using split_n_obtain [OF assms] by (metis zero_less_numeral zero_less_power, metis)

lemma split_n_Suc_bounds:
  "0 < split_n (Suc (Suc n))" "split_n (Suc (Suc n)) < Suc (Suc n)"
  using split_n_bounds [of "Suc (Suc n)"] by simp_all

lemma pow2_between_unique:
  assumes "2 ^ i < n" "n \<le> 2 * 2 ^ i" "2 ^ j < n" "n \<le> 2 * (2 ^ j :: nat)"
  shows "i = j"
proof (rule ccontr)
  assume "i \<noteq> j"
  then consider "Suc i \<le> j" | "Suc j \<le> i" by linarith
  then show False
  proof cases
    case 1
    then have "(2::nat) ^ Suc i \<le> 2 ^ j" by (intro power_increasing) simp_all
    with assms show False by simp
  next
    case 2
    then have "(2::nat) ^ Suc j \<le> 2 ^ i" by (intro power_increasing) simp_all
    with assms show False by simp
  qed
qed

lemma split_n_eqI:
  assumes "2 ^ j < n" "n \<le> 2 * 2 ^ j"
  shows "split_n n = 2 ^ j"
proof -
  have "(0::nat) < 2 ^ j" by simp
  with assms have "2 \<le> n" by linarith
  then obtain i where "split_n n = 2 ^ i" "2 ^ i < n" "n \<le> 2 * 2 ^ i"
    by (rule split_n_obtain)
  with assms pow2_between_unique [of i n j] show ?thesis by simp
qed

section \<open>The tree head and the proof generators\<close>

function mth :: "sha \<Rightarrow> hash list \<Rightarrow> hash" where
  "mth sha leaves =
     (case leaves of
        [] \<Rightarrow> sha []
      | [x] \<Rightarrow> x
      | _ \<Rightarrow> (let k = split_n (length leaves)
             in node_hash sha (mth sha (take k leaves)) (mth sha (drop k leaves))))"
  by pat_completeness auto
termination
  by (relation "measure (\<lambda>(sha, leaves). length leaves)")
     (auto simp: split_n_Suc_bounds not_le intro: diff_less)

declare mth.simps [simp del]

partial_function (option) inclusion :: "sha \<Rightarrow> hash list \<Rightarrow> nat \<Rightarrow> hash list option" where
  "inclusion sha leaves m =
     (let n = length leaves in
      if n = 1 then Some []
      else let k = split_n n in
        if m < k then
          Option.bind (inclusion sha (take k leaves) m) (\<lambda>p. Some (p @ [mth sha (drop k leaves)]))
        else
          Option.bind (inclusion sha (drop k leaves) (m - k)) (\<lambda>p. Some (p @ [mth sha (take k leaves)])))"

partial_function (option) subproof :: "sha \<Rightarrow> nat \<Rightarrow> hash list \<Rightarrow> bool \<Rightarrow> hash list option" where
  "subproof sha m leaves b =
     (let n = length leaves in
      if m = n then Some (if b then [] else [mth sha leaves])
      else let k = split_n n in
        if m \<le> k then
          Option.bind (subproof sha m (take k leaves) b) (\<lambda>p. Some (p @ [mth sha (drop k leaves)]))
        else
          Option.bind (subproof sha (m - k) (drop k leaves) False) (\<lambda>p. Some (p @ [mth sha (take k leaves)])))"

section \<open>The append-only log\<close>

record transparency_log =
  leaves :: "hash list"

definition new_log :: transparency_log where
  "new_log = \<lparr>leaves = []\<rparr>"

definition log_append :: "sha \<Rightarrow> transparency_log \<Rightarrow> bytes \<Rightarrow> transparency_log \<times> nat" where
  "log_append sha log entry =
     (let idx = length (leaves log) in (log\<lparr>leaves := leaves log @ [leaf_hash sha entry]\<rparr>, idx))"

definition log_size :: "transparency_log \<Rightarrow> nat" where
  "log_size log = length (leaves log)"

definition root :: "sha \<Rightarrow> transparency_log \<Rightarrow> hash" where
  "root sha log = mth sha (leaves log)"

definition root_at :: "sha \<Rightarrow> transparency_log \<Rightarrow> nat \<Rightarrow> hash option" where
  "root_at sha log n =
     (if n \<le> length (leaves log) then Some (mth sha (take n (leaves log))) else None)"

definition inclusion_path :: "sha \<Rightarrow> transparency_log \<Rightarrow> nat \<Rightarrow> hash list option option" where
  "inclusion_path sha log idx =
     (if idx < length (leaves log) then map_option Some (inclusion sha (leaves log) idx)
      else Some None)"

definition consistency_path :: "sha \<Rightarrow> transparency_log \<Rightarrow> nat \<Rightarrow> hash list option option" where
  "consistency_path sha log m =
     (if length (leaves log) < m then Some None
      else if m = 0 then Some (Some [])
      else if m = length (leaves log) then Some (Some [])
      else map_option Some (subproof sha m (leaves log) True))"

definition leaf_at :: "transparency_log \<Rightarrow> nat \<Rightarrow> hash option" where
  "leaf_at log idx = (if idx < length (leaves log) then Some (leaves log ! idx) else None)"

section \<open>The split loop on words\<close>

lemma unat_pow2_word: "i < 64 \<Longrightarrow> unat (2 ^ i :: usize) = 2 ^ i"
proof -
  assume "i < 64"
  then have "(2::nat) ^ i < 2 ^ 64" by (intro power_strict_increasing) simp_all
  then have "unat (word_of_nat (2 ^ i) :: usize) = 2 ^ i"
    unfolding unat_of_nat by (intro mod_less) simp
  then show ?thesis by simp
qed

lemma push_bit_pow2: "push_bit 1 (2 ^ i :: usize) = 2 ^ Suc i"
  by (simp add: push_bit_eq_mult)

lemma split_loop_word:
  assumes "2 ^ j < unat n" "unat n \<le> 2 ^ Suc j" "j < 63"
  shows "i \<le> Suc j \<Longrightarrow> split_loop n (2 ^ i) = Some (2 ^ Suc j)"
proof (induction "Suc j - i" arbitrary: i)
  case 0
  then have i: "i = Suc j" by simp
  have "\<not> (2 ^ i :: usize) < n"
    using assms i unat_pow2_word [of i] by (simp add: word_less_nat_alt del: power_Suc)
  with i show ?case by (simp add: split_loop.simps del: power_Suc)
next
  case (Suc d)
  then have i: "i \<le> j" "d = Suc j - Suc i" by simp_all
  have "(2::nat) ^ i \<le> 2 ^ j" using i by simp
  with assms(1) have "(2::nat) ^ i < unat n" by linarith
  then have "(2 ^ i :: usize) < n"
    using assms(3) i unat_pow2_word [of i] by (simp add: word_less_nat_alt)
  then have "split_loop n (2 ^ i) = split_loop n (2 ^ Suc i)"
    by (subst split_loop.simps) (simp only: push_bit_pow2 if_True)
  with Suc.hyps(1) [OF i(2)] i show ?case by simp
qed

lemma split_loop_diverges:
  assumes "2 ^ 63 < unat n"
  shows "k = 0 \<or> (\<exists>i < 64. k = 2 ^ i) \<Longrightarrow> split_loop n k = None"
proof (rule ccontr)
  assume k: "k = 0 \<or> (\<exists>i < 64. k = 2 ^ i)" and "split_loop n k \<noteq> None"
  then obtain r where r: "split_loop n k = Some r" by auto
  have "\<not> (2 ^ 63 < unat n \<and> (k = 0 \<or> (\<exists>i < 64. k = 2 ^ i)))"
  proof (rule split_loop.raw_induct [where P = "\<lambda>n k r. \<not> (2 ^ 63 < unat n \<and> (k = 0 \<or> (\<exists>i < 64. k = 2 ^ i)))", OF _ r])
    fix f and n k r :: usize
    assume IH: "\<And>n k r. f n k = Some r \<Longrightarrow> \<not> (2 ^ 63 < unat n \<and> (k = 0 \<or> (\<exists>i < 64. k = 2 ^ i)))"
      and eq: "(if k < n then f n (push_bit 1 k) else Some k) = Some r"
    show "\<not> (2 ^ 63 < unat n \<and> (k = 0 \<or> (\<exists>i < 64. k = 2 ^ i)))"
    proof
      assume a: "2 ^ 63 < unat n \<and> (k = 0 \<or> (\<exists>i < 64. k = 2 ^ i))"
      have "unat k \<le> 2 ^ 63"
      proof -
        have "unat (2 ^ i :: usize) \<le> 2 ^ 63" if "i < 64" for i
          unfolding unat_pow2_word [OF that] using that by (intro power_increasing) auto
        with a show ?thesis by auto
      qed
      with a have "k < n" by (simp add: word_less_nat_alt)
      with eq have f: "f n (push_bit 1 k) = Some r" by simp
      have "push_bit 1 (2 ^ i :: usize) = 0 \<or> (\<exists>i' < 64. push_bit 1 (2 ^ i :: usize) = 2 ^ i')" if "i < 64" for i
      proof (cases "i = 63")
        case True
        then show ?thesis by (simp add: push_bit_eq_mult)
      next
        case False
        with that show ?thesis by (intro disjI2 exI [of _ "Suc i"]) (simp only: push_bit_pow2, simp)
      qed
      with a have "push_bit 1 k = 0 \<or> (\<exists>i < 64. push_bit 1 k = 2 ^ i)" by auto
      with IH [OF f] a show False by blast
    qed
  qed
  with assms k show False by blast
qed


lemma split_w_eq:
  "split_w n = (if unat n \<le> 2 ^ 63 then Some (word_of_nat (split_n (unat n))) else None)"
proof -
  consider "unat n < 2" | "2 \<le> unat n" "unat n \<le> 2 ^ 63" | "2 ^ 63 < unat n" by linarith
  then show ?thesis
  proof cases
    case 1
    then have "\<not> 1 < n" by (simp add: word_less_nat_alt)
    moreover have "drop_bit 1 (1::usize) = 0" by simp
    moreover have "unat n = 0 \<or> unat n = Suc 0" using 1 by linarith
    then have "split_n (unat n) = 0" by auto
    ultimately show ?thesis using 1 by (simp add: split_w_def split_loop.simps)
  next
    case 2
    then obtain j where j: "split_n (unat n) = 2 ^ j" "2 ^ j < unat n" "unat n \<le> 2 * 2 ^ j"
      by (meson split_n_obtain)
    from j(2) 2(2) have "(2::nat) ^ j < 2 ^ 63" by linarith
    then have j63: "j < 63" by (simp only: power_strict_increasing_iff one_less_numeral_iff semiring_norm)
    have "split_loop n 1 = Some (2 ^ Suc j)"
      using split_loop_word [of j n 0] j j63 by simp
    moreover have "drop_bit 1 (2 ^ Suc j :: usize) = 2 ^ j"
    proof -
      have "unat (drop_bit 1 (2 ^ Suc j :: usize)) = drop_bit 1 (unat (2 ^ Suc j :: usize))"
        by (rule unat_drop_bit_eq)
      also have "\<dots> = drop_bit 1 (2 ^ Suc j)"
        using j63 by (subst unat_pow2_word) simp_all
      also have "\<dots> = unat (2 ^ j :: usize)"
        using j63 by (subst unat_pow2_word) (simp_all add: drop_bit_eq_div)
      finally have "unat (drop_bit 1 (2 ^ Suc j :: usize)) = unat (2 ^ j :: usize)" .
      then show ?thesis by (simp add: word_unat_eq_iff)
    qed
    ultimately show ?thesis using 2 j by (simp add: split_w_def)
  next
    case 3
    then have "split_loop n 1 = None"
      by (intro split_loop_diverges) (auto intro!: exI [of _ 0])
    with 3 show ?thesis by (simp add: split_w_def)
  qed
qed

end
