(* ===== verification/Merkle_Verify.thy ===== *)
theory Merkle_Verify
  imports Transparency
begin

text \<open>
  The two verifiers of \<open>transparency.rs\<close>, loop for loop, and the analysis of what their index
  shifting computes: the list \<open>dirs f s\<close> of sides on which the siblings are joined, which is shown
  to be the path of the recursive generators (\<open>tdirs\<close> for inclusion, \<open>cdirs\<close> for consistency).
\<close>

section \<open>The verifiers\<close>

text \<open>The inner loop: while \<open>f_n\<close> is even and not zero, shift both indices right.\<close>

fun strip_even :: "nat \<Rightarrow> nat \<Rightarrow> nat \<times> nat" where
  "strip_even f s = (if f mod 2 = 0 \<and> f \<noteq> 0 then strip_even (f div 2) (s div 2) else (f, s))"

text \<open>The loop of \<open>verify_consistency\<close> over the trailing ones of \<open>first_size - 1\<close>.\<close>

fun strip_ones :: "nat \<Rightarrow> nat \<Rightarrow> nat \<times> nat" where
  "strip_ones f s = (if f mod 2 = 1 then strip_ones (f div 2) (s div 2) else (f, s))"

declare strip_even.simps [simp del] strip_ones.simps [simp del]

fun inclusion_loop :: "sha \<Rightarrow> hash list \<Rightarrow> nat \<Rightarrow> nat \<Rightarrow> hash \<Rightarrow> nat \<times> hash" where
  "inclusion_loop sha [] f_n s_n h = (s_n, h)"
| "inclusion_loop sha (sib # path) f_n s_n h =
     (let (f, s, h') =
        (if f_n mod 2 = 1 \<or> f_n = s_n
         then (case strip_even f_n s_n of (f, s) \<Rightarrow> (f, s, node_hash sha sib h))
         else (f_n, s_n, node_hash sha h sib))
      in inclusion_loop sha path (f div 2) (s div 2) h')"

definition verify_inclusion ::
    "sha \<Rightarrow> hash \<Rightarrow> nat \<Rightarrow> nat \<Rightarrow> hash list \<Rightarrow> hash \<Rightarrow> bool" where
  "verify_inclusion sha leaf index n path rt =
     (if n \<le> index \<or> n = 0 then False
      else case inclusion_loop sha path index (n - 1) leaf of (s_n, h) \<Rightarrow> h = rt \<and> s_n = 0)"

fun consistency_loop ::
    "sha \<Rightarrow> hash list \<Rightarrow> nat \<Rightarrow> nat \<Rightarrow> hash \<Rightarrow> hash \<Rightarrow> (nat \<times> hash \<times> hash) option" where
  "consistency_loop sha [] f_n s_n fr sr = Some (s_n, fr, sr)"
| "consistency_loop sha (c # pr) f_n s_n fr sr =
     (if s_n = 0 then None
      else if f_n mod 2 = 1 \<or> f_n = s_n
      then (case strip_even f_n s_n of (f, s) \<Rightarrow>
              consistency_loop sha pr (f div 2) (s div 2) (node_hash sha c fr) (node_hash sha c sr))
      else consistency_loop sha pr (f_n div 2) (s_n div 2) fr (node_hash sha sr c))"

definition verify_consistency ::
    "sha \<Rightarrow> nat \<Rightarrow> hash \<Rightarrow> nat \<Rightarrow> hash \<Rightarrow> hash list \<Rightarrow> bool" where
  "verify_consistency sha first_size first_root second_size second_root proof =
     (if second_size < first_size then False
      else if first_size = second_size then first_root = second_root \<and> proof = []
      else if first_size = 0 then True
      else let pr = (if first_size AND (first_size - 1) = 0 then [first_root] else []) @ proof
      in case pr of
           [] \<Rightarrow> False
         | seed # rest \<Rightarrow>
             (case strip_ones (first_size - 1) (second_size - 1) of (f_n, s_n) \<Rightarrow>
                (case consistency_loop sha rest f_n s_n seed seed of
                   None \<Rightarrow> False
                 | Some (s, fr, sr) \<Rightarrow> fr = first_root \<and> sr = second_root \<and> s = 0)))"

section \<open>The sides a verifier joins on\<close>

lemma strip_even_le: "strip_even f s = (f', s') \<Longrightarrow> s' \<le> s"
proof (induction f s rule: strip_even.induct)
  case (1 f s)
  show ?case
  proof (cases "f mod 2 = 0 \<and> f \<noteq> 0")
    case True
    with 1 have "s' \<le> s div 2" by (simp add: strip_even.simps [of f s])
    then show ?thesis by simp
  next
    case False
    with "1.prems" show ?thesis by (auto simp: strip_even.simps [of f s] split: if_splits)
  qed
qed

definition next_fs :: "nat \<Rightarrow> nat \<Rightarrow> nat \<times> nat" where
  "next_fs f s =
     (if odd f \<or> f = s then (case strip_even f s of (f', s') \<Rightarrow> (f' div 2, s' div 2))
      else (f div 2, s div 2))"

lemma next_fs_less: "0 < s \<Longrightarrow> next_fs f s = (f', s') \<Longrightarrow> s' < s"
  by (auto simp: next_fs_def split: if_splits prod.splits dest!: strip_even_le)

lemma next_fs_snd: "0 < s \<Longrightarrow> snd (next_fs f s) < s"
  by (cases "next_fs f s") (simp add: next_fs_less)

function dirs :: "nat \<Rightarrow> nat \<Rightarrow> bool list" where
  "dirs f s =
     (if s = 0 then []
      else (odd f \<or> f = s) # (case next_fs f s of (f', s') \<Rightarrow> dirs f' s'))"
  by pat_completeness auto
termination
  by (relation "measure snd") (auto simp: next_fs_snd)

declare dirs.simps [simp del]

lemma dirs_0 [simp]: "dirs f 0 = []"
  by (simp add: dirs.simps)

lemma dirs_step:
  "0 < s \<Longrightarrow> next_fs f s = (f', s') \<Longrightarrow> dirs f s = (odd f \<or> f = s) # dirs f' s'"
  by (simp add: dirs.simps [of f s])

lemma strip_even_stop: "odd f \<or> f = 0 \<Longrightarrow> strip_even f s = (f, s)"
  by (auto simp: strip_even.simps [of f s] odd_iff_mod_2_eq_one)

lemma strip_even_go: "even f \<Longrightarrow> 0 < f \<Longrightarrow> strip_even f s = strip_even (f div 2) (s div 2)"
  by (simp add: strip_even.simps [of f s] even_iff_mod_2_eq_zero)

lemma next_fs_odd: "odd f \<Longrightarrow> next_fs f s = (f div 2, s div 2)"
  by (simp add: next_fs_def strip_even_stop)

lemma next_fs_skip: "even f \<Longrightarrow> f \<noteq> s \<Longrightarrow> next_fs f s = (f div 2, s div 2)"
  by (simp add: next_fs_def)

lemma next_fs_eq: "even f \<Longrightarrow> 0 < f \<Longrightarrow> next_fs f f = next_fs (f div 2) (f div 2)"
  by (simp add: next_fs_def strip_even_go)

lemma next_fs_pow2: "next_fs (2 ^ j) (2 ^ j) = (0, 0)"
proof (induction j)
  case 0
  then show ?case by (simp add: next_fs_odd)
next
  case (Suc j)
  then show ?case by (simp add: next_fs_eq)
qed

lemma dirs_odd: "odd f \<Longrightarrow> 0 < s \<Longrightarrow> dirs f s = True # dirs (f div 2) (s div 2)"
  using dirs_step [OF _ next_fs_odd] by simp

lemma dirs_skip: "even f \<Longrightarrow> f \<noteq> s \<Longrightarrow> 0 < s \<Longrightarrow> dirs f s = False # dirs (f div 2) (s div 2)"
  using dirs_step [OF _ next_fs_skip] by simp

lemma dirs_eq: "even f \<Longrightarrow> 0 < f \<Longrightarrow> dirs f f = dirs (f div 2) (f div 2)"
proof -
  assume "even f" "0 < f"
  moreover from this have "0 < f div 2" by auto
  ultimately show ?thesis
    using dirs_step [of f f] dirs_step [of "f div 2" "f div 2"] next_fs_eq [of f]
    by (cases "next_fs (f div 2) (f div 2)") auto
qed

lemma dirs_pow2: "dirs (2 ^ j) (2 ^ j) = [True]"
  using dirs_step [OF _ next_fs_pow2] by simp

text \<open>Within a complete left subtree the bits of the index decide; above it comes one left step.\<close>

lemma dirs_left:
  "f < 2 ^ j \<Longrightarrow> s div 2 ^ j = 1 \<Longrightarrow> dirs f s = dirs f (2 ^ j - 1) @ [False]"
proof (induction j arbitrary: f s)
  case 0
  then show ?case by (simp add: dirs_skip)
next
  case (Suc j)
  let ?t = "2 ^ Suc j - 1 :: nat"
  have s: "2 ^ Suc j \<le> s" using Suc.prems(2) by (metis div_less not_le zero_neq_one)
  have half: "(2 ^ Suc j - Suc 0) div 2 = 2 ^ j - Suc 0" by simp
  have ih: "dirs (f div 2) (s div 2) = dirs (f div 2) (2 ^ j - 1) @ [False]"
    using Suc.prems by (intro Suc.IH) (simp_all add: div_mult2_eq [symmetric] mult.commute)
  have t0: "0 < ?t" by (induction j) auto
  show ?case
  proof (cases "odd f")
    case True
    with Suc.prems s t0 show ?thesis
      by (subst (1 2) dirs_odd) (simp_all add: half ih del: power_Suc)
  next
    case False
    have "odd ?t" by simp
    with False have ne: "f \<noteq> ?t" by blast
    from False Suc.prems(1) s t0 ne show ?thesis
      by (subst (1 2) dirs_skip) (simp_all add: half ih del: power_Suc)
  qed
qed

text \<open>In the right subtree both indices carry one more top bit, which ends in one right step.\<close>

lemma dirs_right:
  "f \<le> s \<Longrightarrow> s < 2 ^ j \<Longrightarrow> dirs (f + 2 ^ j) (s + 2 ^ j) = dirs f s @ [True]"
proof (induction j arbitrary: f s)
  case 0
  then show ?case by (simp add: dirs_odd)
next
  case (Suc j)
  have half: "(x + 2 ^ Suc j) div 2 = x div 2 + 2 ^ j" for x :: nat by simp
  have ih: "dirs (f div 2 + 2 ^ j) (s div 2 + 2 ^ j) = dirs (f div 2) (s div 2) @ [True]"
    using Suc.prems by (intro Suc.IH) auto
  consider "s = 0" | "odd f" "0 < s" | "even f" "f \<noteq> s" "0 < s" | "even f" "f = s" "0 < f"
    using Suc.prems by force
  then show ?case
  proof cases
    case 1
    with Suc.prems dirs_pow2 [of "Suc j"] show ?thesis by simp
  next
    case 2
    then show ?thesis
      by (simp add: dirs_odd half ih del: power_Suc)
  next
    case 3
    then show ?thesis
      by (simp add: dirs_skip half ih del: power_Suc)
  next
    case 4
    with ih show ?thesis
      by (simp add: dirs_eq half del: power_Suc)
  qed
qed

section \<open>The sides of the recursive generators\<close>

function tdirs :: "nat \<Rightarrow> nat \<Rightarrow> bool list" where
  "tdirs i n =
     (if n < 2 then []
      else if i < split_n n then tdirs i (split_n n) @ [False]
      else tdirs (i - split_n n) (n - split_n n) @ [True])"
  by pat_completeness auto
termination
  by (relation "measure snd") (auto simp: split_n_bounds not_less)

function cdirs :: "nat \<Rightarrow> nat \<Rightarrow> bool list" where
  "cdirs m n =
     (if m = n \<or> n < 2 then []
      else if m \<le> split_n n then cdirs m (split_n n) @ [False]
      else cdirs (m - split_n n) (n - split_n n) @ [True])"
  by pat_completeness auto
termination
  by (relation "measure snd") (auto simp: split_n_bounds not_less)

declare tdirs.simps [simp del] cdirs.simps [simp del]

lemma tdirs_small [simp]: "n < 2 \<Longrightarrow> tdirs i n = []"
  by (simp add: tdirs.simps)

lemma cdirs_same [simp]: "cdirs n n = []"
  by (simp add: cdirs.simps)

theorem dirs_tdirs: "i < n \<Longrightarrow> dirs i (n - 1) = tdirs i n"
proof (induction n arbitrary: i rule: less_induct)
  case (less n)
  show ?case
  proof (cases "n < 2")
    case True
    with less.prems show ?thesis by (cases n) simp_all
  next
    case False
    then have "2 \<le> n" by simp
    then obtain j where j: "split_n n = 2 ^ j" "2 ^ j < n" "n \<le> 2 * 2 ^ j"
      by (rule split_n_obtain)
    show ?thesis
    proof (cases "i < 2 ^ j")
      case True
      have "(n - 1) div 2 ^ j = 1"
        using j by (simp add: div_nat_eqI)
      then have "dirs i (n - 1) = dirs i (2 ^ j - 1) @ [False]"
        by (rule dirs_left [OF True])
      also have "dirs i (2 ^ j - 1) = tdirs i (2 ^ j)"
        using j True by (intro less.IH)
      finally show ?thesis
        using False j True by (simp add: tdirs.simps [of i n])
    next
      case i: False
      then have "dirs (i - 2 ^ j + 2 ^ j) (n - 2 ^ j - 1 + 2 ^ j) =
          dirs (i - 2 ^ j) (n - 2 ^ j - 1) @ [True]"
        using less.prems j by (intro dirs_right) simp_all
      moreover have "dirs (i - 2 ^ j) (n - 2 ^ j - 1) = tdirs (i - 2 ^ j) (n - 2 ^ j)"
        using less.prems j i by (intro less.IH) simp_all
      ultimately show ?thesis
        using False j i less.prems by (simp add: tdirs.simps [of i n] add.commute)
    qed
  qed
qed

lemma strip_ones_eq:
  "odd a \<Longrightarrow> strip_ones (a * 2 ^ t - 1) s = (a - 1, s div 2 ^ t)"
proof (induction t arbitrary: s)
  case 0
  then show ?case by (subst strip_ones.simps) (auto elim: oddE)
next
  case (Suc t)
  then obtain b where b: "a * 2 ^ t = Suc b" by (cases "a * 2 ^ t") auto
  then have "a * 2 ^ Suc t - 1 = Suc (2 * b)" by simp
  moreover have "strip_ones (Suc (2 * b)) s = strip_ones b (s div 2)"
    by (subst strip_ones.simps) simp
  moreover have "strip_ones b (s div 2) = (a - 1, s div 2 div 2 ^ t)"
    using Suc.IH [OF Suc.prems, of "s div 2"] b by simp
  ultimately show ?case by (simp add: div_mult2_eq)
qed

lemma odd_part: "0 < m \<Longrightarrow> \<exists>a t. odd a \<and> m = a * 2 ^ t" for m :: nat
proof (induction m rule: less_induct)
  case (less m)
  show ?case
  proof (cases "odd m")
    case True
    then show ?thesis by (intro exI [of _ m] exI [of _ 0]) simp
  next
    case False
    then obtain h where h: "m = 2 * h" by blast
    with less.prems have "h < m" "0 < h" by simp_all
    then obtain a t where "odd a" "h = a * 2 ^ t" using less.IH by blast
    with h show ?thesis by (intro exI [of _ a] exI [of _ "Suc t"]) simp
  qed
qed

theorem dirs_cdirs:
  "odd a \<Longrightarrow> a * 2 ^ t < n \<Longrightarrow> dirs (a - 1) ((n - 1) div 2 ^ t) = cdirs (a * 2 ^ t) n"
proof (induction n arbitrary: a rule: less_induct)
  case (less n)
  let ?m = "a * 2 ^ t"
  have pos: "0 < a" using less.prems(1) by (cases a) simp_all
  from pos have "0 < ?m" by simp
  with less.prems(2) have n2: "2 \<le> n" by linarith
  from n2 obtain j where j: "split_n n = 2 ^ j" "2 ^ j < n" "n \<le> 2 * 2 ^ j"
    by (rule split_n_obtain)
  show ?case
  proof (cases "?m \<le> 2 ^ j")
    case True
    have tj: "t \<le> j"
    proof (rule ccontr)
      assume "\<not> t \<le> j"
      then have "(2::nat) ^ j < 2 ^ t" by simp
      with True pos show False by (metis le_trans linorder_not_less mult.commute mult_le_mono1 mult_1 One_nat_def Suc_leI)
    qed
    then have jt: "(2::nat) ^ j = 2 ^ (j - t) * 2 ^ t" by (metis le_add_diff_inverse2 power_add)
    have top: "(n - 1) div 2 ^ t div 2 ^ (j - t) = 1"
      using j jt by (simp add: div_mult2_eq [symmetric] mult.commute div_nat_eqI)
    have "a \<le> 2 ^ (j - t)" using True jt by simp
    with pos have "a - 1 < 2 ^ (j - t)" by simp
    from dirs_left [OF this top]
    have step: "dirs (a - 1) ((n - 1) div 2 ^ t) = dirs (a - 1) (2 ^ (j - t) - 1) @ [False]" .
    have low: "dirs (a - 1) (2 ^ (j - t) - 1) = cdirs ?m (2 ^ j)"
    proof (cases "?m = 2 ^ j")
      case True
      then have "a = 2 ^ (j - t)" using jt by simp
      with less.prems(1) True show ?thesis by (cases "j - t") simp_all
    next
      case False
      with True have "?m < 2 ^ j" by simp
      moreover have "(2 ^ j - 1) div 2 ^ t = 2 ^ (j - t) - (1::nat)"
        using tj by (intro div_nat_eqI) (simp_all add: jt algebra_simps diff_le_mono2)
      ultimately show ?thesis using less.IH [of "2 ^ j" a] less.prems j by simp
    qed
    show ?thesis
      using step low j True less.prems n2 by (simp add: cdirs.simps [of ?m n])
  next
    case False
    have tj: "t < j"
    proof (rule ccontr)
      assume "\<not> t < j"
      then have "2 ^ t = 2 ^ j * (2::nat) ^ (t - j)" by (simp add: power_add [symmetric])
      then have eq: "?m = 2 ^ j * (a * 2 ^ (t - j))" by simp
      have "2 ^ j * 1 < 2 ^ j * (a * 2 ^ (t - j))" "2 ^ j * (a * 2 ^ (t - j)) < 2 ^ j * 2"
        using False j(3) less.prems(2) unfolding eq [symmetric] by linarith+
      then have "1 < a * 2 ^ (t - j)" "a * 2 ^ (t - j) < 2"
        by (simp_all only: nat_mult_less_cancel1 zero_less_power zero_less_numeral)
      then show False by linarith
    qed
    then have jt: "(2::nat) ^ j = 2 ^ (j - t) * 2 ^ t" by (metis le_add_diff_inverse2 less_imp_le power_add)
    define b where "b = a - 2 ^ (j - t)"
    have ab: "a = b + 2 ^ (j - t)" "0 < b"
      using False jt by (auto simp: b_def)
    have oddb: "odd b" using less.prems(1) ab tj by simp
    have mb: "?m - 2 ^ j = b * 2 ^ t" using ab jt by (simp add: algebra_simps)
    have "(n - 1) div 2 ^ t = (n - 2 ^ j - 1 + 2 ^ (j - t) * 2 ^ t) div 2 ^ t"
      using j jt by (simp add: algebra_simps)
    then have s: "(n - 1) div 2 ^ t = (n - 2 ^ j - 1) div 2 ^ t + 2 ^ (j - t)"
      by simp
    have bn: "b * 2 ^ t < n - 2 ^ j" using less.prems(2) mb False by linarith
    have "b * 2 ^ t - 2 ^ t \<le> n - 2 ^ j - 1" using bn by simp
    then have le: "b - 1 \<le> (n - 2 ^ j - 1) div 2 ^ t"
      by (simp add: less_eq_div_iff_mult_less_eq algebra_simps)
    have lt: "(n - 2 ^ j - 1) div 2 ^ t < 2 ^ (j - t)"
      using j jt by (simp add: less_mult_imp_div_less)
    have "dirs (a - 1) ((n - 1) div 2 ^ t) = dirs (b - 1) ((n - 2 ^ j - 1) div 2 ^ t) @ [True]"
      using dirs_right [OF le lt] s ab by simp
    also have "dirs (b - 1) ((n - 2 ^ j - 1) div 2 ^ t) = cdirs (b * 2 ^ t) (n - 2 ^ j)"
      using less.IH [of "n - 2 ^ j" b] j oddb bn by simp
    finally show ?thesis
      using mb j False less.prems n2 by (simp add: cdirs.simps [of ?m n])
  qed
qed

section \<open>Joining hashes along given sides\<close>

text \<open>Joining along given sides: all siblings, and the left siblings only.\<close>

fun climb :: "sha \<Rightarrow> bool list \<Rightarrow> hash list \<Rightarrow> hash \<Rightarrow> hash" where
  "climb sha (d # ds) (p # ps) h =
     climb sha ds ps (if d then node_hash sha p h else node_hash sha h p)"
| "climb sha _ _ h = h"

fun climb_left :: "sha \<Rightarrow> bool list \<Rightarrow> hash list \<Rightarrow> hash \<Rightarrow> hash" where
  "climb_left sha (d # ds) (p # ps) h =
     climb_left sha ds ps (if d then node_hash sha p h else h)"
| "climb_left sha _ _ h = h"

lemma climb_snoc:
  "length ds = length ps \<Longrightarrow>
   climb sha (ds @ [d]) (ps @ [p]) h =
     (if d then node_hash sha p (climb sha ds ps h) else node_hash sha (climb sha ds ps h) p)"
  by (induction ds ps arbitrary: h rule: list_induct2) auto

lemma climb_left_snoc:
  "length ds = length ps \<Longrightarrow>
   climb_left sha (ds @ [d]) (ps @ [p]) h =
     (if d then node_hash sha p (climb_left sha ds ps h) else climb_left sha ds ps h)"
  by (induction ds ps arbitrary: h rule: list_induct2) auto

section \<open>What the loops return\<close>

lemma next_fs_le: "f \<le> s \<Longrightarrow> next_fs f s = (f', s') \<Longrightarrow> f' \<le> s'"
proof (induction s arbitrary: f rule: less_induct)
  case (less s)
  consider "odd f" | "even f" "f \<noteq> s" | "f = s" "even f" "0 < s" | "f = 0" "s = 0" by fastforce
  then show ?case
  proof cases
    case 3
    then have "s div 2 < s" by auto
    with less.IH [of "s div 2" "s div 2"] less.prems 3 next_fs_eq [of s] show ?thesis by simp
  next
    case 4
    with less.prems show ?thesis by (simp add: next_fs_def strip_even_stop)
  qed (use less.prems in \<open>auto simp: next_fs_odd next_fs_skip div_le_mono\<close>)
qed

lemma inclusion_loop_Cons:
  "next_fs f s = (f', s') \<Longrightarrow>
   inclusion_loop sha (sib # path) f s h =
     inclusion_loop sha path f' s' (if odd f \<or> f = s then node_hash sha sib h else node_hash sha h sib)"
  by (auto simp: next_fs_def odd_iff_mod_2_eq_one split: prod.splits if_splits)

lemma consistency_loop_Cons:
  "0 < s \<Longrightarrow> next_fs f s = (f', s') \<Longrightarrow>
   consistency_loop sha (c # pr) f s fr sr =
     (if odd f \<or> f = s
      then consistency_loop sha pr f' s' (node_hash sha c fr) (node_hash sha c sr)
      else consistency_loop sha pr f' s' fr (node_hash sha sr c))"
  by (auto simp: next_fs_def odd_iff_mod_2_eq_one split: prod.splits if_splits)

declare inclusion_loop.simps(2) [simp del] consistency_loop.simps(2) [simp del]

lemma inclusion_loop_done:
  "inclusion_loop sha path 0 0 h = (0, climb sha (replicate (length path) True) path h)"
proof (induction path arbitrary: h)
  case (Cons p path)
  have "next_fs 0 0 = (0, 0)" by (simp add: next_fs_def strip_even_stop)
  from inclusion_loop_Cons [OF this] Cons show ?case by simp
qed simp

text \<open>What the inclusion loop returns: the index reaches 0 exactly when the path is long enough, and
  the hash is the join along \<open>dirs\<close>, every sibling beyond them taken from the left.\<close>

lemma inclusion_loop_dirs:
  "f \<le> s \<Longrightarrow> length (dirs f s) \<le> length path \<Longrightarrow>
   inclusion_loop sha path f s h =
     (0, climb sha (dirs f s @ replicate (length path - length (dirs f s)) True) path h)"
proof (induction path arbitrary: f s h)
  case Nil
  then show ?case by (cases "s = 0") (simp_all add: dirs.simps [of f s])
next
  case (Cons p path)
  show ?case
  proof (cases "s = 0")
    case True
    with Cons.prems inclusion_loop_done [of sha "p # path"] show ?thesis by simp
  next
    case False
    obtain f' s' where n: "next_fs f s = (f', s')" by fastforce
    from False Cons.prems n have "length (dirs f' s') \<le> length path"
      by (simp add: dirs_step [OF _ n])
    with Cons.IH [OF next_fs_le [OF Cons.prems(1) n]] False n show ?thesis
      by (simp add: inclusion_loop_Cons dirs_step [OF _ n])
  qed
qed

lemma inclusion_loop_short:
  "f \<le> s \<Longrightarrow> length path < length (dirs f s) \<Longrightarrow> fst (inclusion_loop sha path f s h) \<noteq> 0"
proof (induction path arbitrary: f s h)
  case Nil
  then show ?case by (cases "s = 0") simp_all
next
  case (Cons p path)
  obtain f' s' where n: "next_fs f s = (f', s')" by fastforce
  from Cons.prems have "0 < s" by (cases "s = 0") simp_all
  with Cons n next_fs_le [OF Cons.prems(1) n] show ?case
    by (simp add: inclusion_loop_Cons dirs_step [OF _ n])
qed

lemma consistency_loop_iff:
  "f \<le> s \<Longrightarrow>
   consistency_loop sha pr f s fr sr = Some (0, fr', sr') \<longleftrightarrow>
     length pr = length (dirs f s) \<and> fr' = climb_left sha (dirs f s) pr fr \<and>
     sr' = climb sha (dirs f s) pr sr"
proof (induction pr arbitrary: f s fr sr)
  case Nil
  then show ?case by (cases "s = 0") (auto simp: dirs.simps [of f s])
next
  case (Cons p pr)
  show ?case
  proof (cases "s = 0")
    case True
    then show ?thesis by (simp add: consistency_loop.simps)
  next
    case False
    obtain f' s' where n: "next_fs f s = (f', s')" by fastforce
    from False Cons.IH [OF next_fs_le [OF Cons.prems(1) n]] n show ?thesis
      by (auto simp: consistency_loop_Cons dirs_step [OF _ n])
  qed
qed

section \<open>What the verifiers accept\<close>

theorem verify_inclusion_iff:
  "verify_inclusion sha leaf i n path rt \<longleftrightarrow>
     i < n \<and> length (tdirs i n) \<le> length path \<and>
     climb sha (tdirs i n @ replicate (length path - length (tdirs i n)) True) path leaf = rt"
proof (cases "i < n")
  case True
  then have d: "dirs i (n - 1) = tdirs i n" by (rule dirs_tdirs)
  show ?thesis
  proof (cases "length (tdirs i n) \<le> length path")
    case True
    with \<open>i < n\<close> d inclusion_loop_dirs [of i "n - 1" path sha leaf] show ?thesis
      by (simp add: verify_inclusion_def)
  next
    case False
    with \<open>i < n\<close> d inclusion_loop_short [of i "n - 1" path sha leaf] show ?thesis
      by (auto simp: verify_inclusion_def split: prod.splits)
  qed
qed (simp add: verify_inclusion_def)

definition pow2 :: "nat \<Rightarrow> bool" where
  "pow2 m \<longleftrightarrow> m AND (m - 1) = 0"

lemma pow2_even: "0 < h \<Longrightarrow> pow2 (2 * h) \<longleftrightarrow> pow2 h"
proof -
  assume "0 < h"
  then obtain g where g: "h = Suc g" by (cases h) auto
  have "(2 * h) AND (2 * h - 1) = 2 * (h AND (h - 1))"
    by (subst and_nat_rec) (simp add: g)
  then show ?thesis by (simp add: pow2_def)
qed

lemma pow2_odd: "odd a \<Longrightarrow> pow2 a \<longleftrightarrow> a = 1"
proof -
  assume "odd a"
  then obtain g where g: "a = Suc (2 * g)" by (auto elim: oddE)
  have "a AND (a - 1) = 2 * g"
    by (subst and_nat_rec) (simp add: g)
  with g show ?thesis by (auto simp: pow2_def)
qed

lemma pow2_mult: "odd a \<Longrightarrow> pow2 (a * 2 ^ t) \<longleftrightarrow> a = 1"
proof (induction t)
  case 0
  then show ?case by (simp add: pow2_odd)
next
  case (Suc t)
  then have "0 < a * 2 ^ t" by (cases a) auto
  from pow2_even [OF this] Suc show ?case by (simp add: ac_simps)
qed

theorem verify_consistency_iff:
  assumes "0 < m" "m < n"
  shows "verify_consistency sha m r1 n r2 proof \<longleftrightarrow>
    (\<exists>seed rest. (if pow2 m then [r1] else []) @ proof = seed # rest \<and>
       length rest = length (cdirs m n) \<and>
       climb_left sha (cdirs m n) rest seed = r1 \<and> climb sha (cdirs m n) rest seed = r2)"
proof -
  obtain a t where m: "odd a" "m = a * 2 ^ t" using odd_part [OF assms(1)] by blast
  have strip: "strip_ones (m - 1) (n - 1) = (a - 1, (n - 1) div 2 ^ t)"
    using strip_ones_eq [OF m(1), of t "n - 1"] m(2) by simp
  have d: "dirs (a - 1) ((n - 1) div 2 ^ t) = cdirs m n"
    using dirs_cdirs [OF m(1)] m(2) assms(2) by simp
  have le: "a - 1 \<le> (n - 1) div 2 ^ t"
  proof -
    have "(a - 1) * 2 ^ t \<le> n - 1" using assms m(2) by (simp add: algebra_simps)
    then show ?thesis by (simp add: less_eq_div_iff_mult_less_eq)
  qed
  have loop: "verify_consistency sha m r1 n r2 proof \<longleftrightarrow>
      (case (if pow2 m then [r1] else []) @ proof of
         [] \<Rightarrow> False
       | seed # rest \<Rightarrow>
           consistency_loop sha rest (a - 1) ((n - 1) div 2 ^ t) seed seed = Some (0, r1, r2))"
    using assms
    by (simp add: verify_consistency_def pow2_def strip conj_ac del: One_nat_def split: list.split option.split)
  show ?thesis
    unfolding loop using consistency_loop_iff [OF le, unfolded d] by (auto split: list.split)
qed

end
