(* ===== verification/Merkle_Complete.thy ===== *)
theory Merkle_Complete
  imports Merkle_Verify
begin

text \<open>
  Completeness of the proof generators of \<open>transparency.rs\<close>: the recursions of \<open>inclusion\<close> and
  \<open>subproof\<close> return for every index and size the log passes to them, and what they return is
  accepted by the verifiers' loops.
\<close>

section \<open>Unfolding the tree head\<close>

lemma mth_Nil [simp]: "mth sha [] = sha []"
  by (subst mth.simps) simp

lemma mth_single [simp]: "mth sha [x] = x"
  by (subst mth.simps) simp

lemma mth_split:
  "2 \<le> length xs \<Longrightarrow>
   mth sha xs = node_hash sha (mth sha (take (split_n (length xs)) xs)) (mth sha (drop (split_n (length xs)) xs))"
proof -
  assume "2 \<le> length xs"
  then obtain x y zs where xs: "xs = x # y # zs"
    by (cases xs rule: remdups_adj.cases) simp_all
  show ?thesis unfolding xs by (subst mth.simps) (simp add: Let_def)
qed

lemma length_cases [case_names one two]:
  assumes "0 < n"
  obtains "n = 1" | j where "2 \<le> n" "split_n n = 2 ^ j" "2 ^ j < n" "n \<le> 2 * 2 ^ j"
  using assms split_n_obtain [of n] by (metis One_nat_def Suc_leI le_neq_implies_less numeral_2_eq_2)

section \<open>The generated proofs are accepted\<close>

lemma inclusion_climb:
  "i < length xs \<Longrightarrow>
   \<exists>p. inclusion sha xs i = Some p \<and> length p = length (tdirs i (length xs)) \<and>
       climb sha (tdirs i (length xs)) p (xs ! i) = mth sha xs"
proof (induction "length xs" arbitrary: xs i rule: less_induct)
  case less
  then have "0 < length xs" by linarith
  then show ?case
  proof (cases rule: length_cases)
    case one
    with less.prems show ?thesis
      by (cases xs) (auto simp: inclusion.simps [of sha "[_]"])
  next
    case (two j)
    show ?thesis
    proof (cases "i < 2 ^ j")
      case True
      with less.hyps [of "take (2 ^ j) xs" i] two obtain p where
        "inclusion sha (take (2 ^ j) xs) i = Some p" "length p = length (tdirs i (2 ^ j))"
        "climb sha (tdirs i (2 ^ j)) p (xs ! i) = mth sha (take (2 ^ j) xs)"
        by (auto simp: min_def)
      with True two show ?thesis
        by (simp add: inclusion.simps [of sha xs] tdirs.simps [of i "length xs"] climb_snoc mth_split [of xs])
    next
      case False
      have lt: "length xs - 2 ^ j < length xs" "i - 2 ^ j < length xs - 2 ^ j"
        using False less.prems two by (auto simp: diff_less_mono)
      with less.hyps [of "drop (2 ^ j) xs" "i - 2 ^ j"] False obtain p where
        "inclusion sha (drop (2 ^ j) xs) (i - 2 ^ j) = Some p"
        "length p = length (tdirs (i - 2 ^ j) (length xs - 2 ^ j))"
        "climb sha (tdirs (i - 2 ^ j) (length xs - 2 ^ j)) p (xs ! i) = mth sha (drop (2 ^ j) xs)"
        by auto
      with False two show ?thesis
        by (simp add: inclusion.simps [of sha xs] tdirs.simps [of i "length xs"] climb_snoc mth_split [of xs])
    qed
  qed
qed

lemma pow2_iff: "0 < m \<Longrightarrow> pow2 m \<longleftrightarrow> (\<exists>i. m = 2 ^ i)"
proof
  assume "0 < m"
  then obtain a t where m: "odd a" "m = a * 2 ^ t" using odd_part by blast
  {
    assume "pow2 m"
    with m pow2_mult [of a t] show "\<exists>i. m = 2 ^ i" by auto
  next
    assume "\<exists>i. m = 2 ^ i"
    then obtain i where "m = 2 ^ i" ..
    then show "pow2 m" using pow2_mult [of 1 i] by simp
  }
qed

lemma not_pow2_between: "2 ^ j < m \<Longrightarrow> m < 2 * 2 ^ j \<Longrightarrow> \<not> pow2 m"
proof
  assume m: "2 ^ j < m" "m < 2 * 2 ^ j" and "pow2 m"
  then obtain i where "m = 2 ^ i" using pow2_iff [of m] by (metis gr_implies_not0 neq0_conv)
  with m have "(2::nat) ^ j < 2 ^ i" "(2::nat) ^ i < 2 ^ Suc j" by simp_all
  then have "j < i" "i < Suc j" by (simp_all only: power_strict_increasing_iff one_less_numeral_iff semiring_norm)
  then show False by simp
qed

lemma subproof_climb:
  "0 < m \<Longrightarrow> m \<le> length xs \<Longrightarrow>
   \<exists>base sibs.
     subproof sha m xs False = Some (base # sibs) \<and>
     subproof sha m xs True = Some ((if m = length xs \<or> pow2 m then [] else [base]) @ sibs) \<and>
     length sibs = length (cdirs m (length xs)) \<and>
     climb sha (cdirs m (length xs)) sibs base = mth sha xs \<and>
     climb_left sha (cdirs m (length xs)) sibs base = mth sha (take m xs) \<and>
     (m = length xs \<or> pow2 m \<longrightarrow> base = mth sha (take m xs))"
proof (induction "length xs" arbitrary: xs m rule: less_induct)
  case less
  then have "0 < length xs" by linarith
  show ?case
  proof (cases "m = length xs")
    case True
    then show ?thesis by (simp add: subproof.simps)
  next
    case ne: False
    from \<open>0 < length xs\<close> show ?thesis
    proof (cases rule: length_cases)
      case one
      with ne less.prems show ?thesis by simp
    next
      case (two j)
      show ?thesis
      proof (cases "m \<le> 2 ^ j")
        case True
        have pk: "pow2 (2 ^ j)" using pow2_iff [of "2 ^ j"] by auto
        from less.hyps [of "take (2 ^ j) xs" m] less.prems two True pk obtain base sibs where
          "subproof sha m (take (2 ^ j) xs) False = Some (base # sibs)"
          "subproof sha m (take (2 ^ j) xs) True = Some ((if pow2 m then [] else [base]) @ sibs)"
          "length sibs = length (cdirs m (2 ^ j))"
          "climb sha (cdirs m (2 ^ j)) sibs base = mth sha (take (2 ^ j) xs)"
          "climb_left sha (cdirs m (2 ^ j)) sibs base = mth sha (take m xs)"
          "pow2 m \<longrightarrow> base = mth sha (take m xs)"
          by (auto simp: min_def split: if_splits)
        with True ne two show ?thesis
          by (simp add: subproof.simps [of sha m xs] cdirs.simps [of m "length xs"] climb_snoc
              climb_left_snoc mth_split [of xs])
      next
        case False
        with less.prems ne two have np: "\<not> pow2 m" by (intro not_pow2_between [of j]) auto
        have lt: "length xs - 2 ^ j < length xs" "m - 2 ^ j \<le> length xs - 2 ^ j" "0 < m - 2 ^ j"
          using False less.prems two by auto
        with less.hyps [of "drop (2 ^ j) xs" "m - 2 ^ j"] obtain base sibs where ih:
          "subproof sha (m - 2 ^ j) (drop (2 ^ j) xs) False = Some (base # sibs)"
          "length sibs = length (cdirs (m - 2 ^ j) (length xs - 2 ^ j))"
          "climb sha (cdirs (m - 2 ^ j) (length xs - 2 ^ j)) sibs base = mth sha (drop (2 ^ j) xs)"
          "climb_left sha (cdirs (m - 2 ^ j) (length xs - 2 ^ j)) sibs base =
             mth sha (take (m - 2 ^ j) (drop (2 ^ j) xs))"
          by auto
        have sm: "split_n m = 2 ^ j" using False less.prems two by (intro split_n_eqI) auto
        have "(1::nat) \<le> 2 ^ j" by simp
        with False have "2 \<le> m" by linarith
        moreover have "length (take m xs) = m" "min (2 ^ j) m = 2 ^ j"
          using less.prems False by auto
        ultimately have "mth sha (take m xs) =
            node_hash sha (mth sha (take (2 ^ j) xs)) (mth sha (take (m - 2 ^ j) (drop (2 ^ j) xs)))"
          using mth_split [of "take m xs" sha] sm by (simp only: take_take drop_take)
        moreover have "cdirs m (length xs) = cdirs (m - 2 ^ j) (length xs - 2 ^ j) @ [True]"
          using False ne two by (simp add: cdirs.simps [of m "length xs"])
        moreover have "subproof sha m xs b = Some (base # sibs @ [mth sha (take (2 ^ j) xs)])" for b
          using False ne two ih(1) by (simp add: subproof.simps [of sha m xs])
        ultimately show ?thesis
          using ih(2-4) ne np mth_split [OF two(1), of sha] two(2)
          by (simp add: climb_snoc climb_left_snoc)
      qed
    qed
  qed
qed

end
