(* ===== verification/Merkle_Sound.thy ===== *)
theory Merkle_Sound
  imports Merkle_Complete
begin

text \<open>
  Soundness of the verifiers of \<open>transparency.rs\<close>. SHA-256 is a parameter with 32-byte results that
  is injective on the strings a particular verification hashes, which are listed explicitly
  (\<open>mth_inputs\<close>, \<open>climb_inputs\<close>, \<open>climb_left_inputs\<close> and the leaf inputs): a false acceptance is
  a collision among these strings. Nothing is assumed about strings that are not hashed.
\<close>

section \<open>The strings that are hashed\<close>

definition sha32 :: "sha \<Rightarrow> bool" where
  "sha32 sha \<longleftrightarrow> (\<forall>x. length (sha x) = 32)"

lemma sha32_simps [simp]:
  "sha32 sha \<Longrightarrow> length (sha x) = 32"
  "sha32 sha \<Longrightarrow> length (leaf_hash sha e) = 32"
  "sha32 sha \<Longrightarrow> length (node_hash sha l r) = 32"
  by (simp_all add: sha32_def leaf_hash_def node_hash_def)

definition hashes :: "hash list \<Rightarrow> bool" where
  "hashes xs \<longleftrightarrow> list_all (\<lambda>x. length x = 32) xs"

lemma hashes_simps [simp]:
  "hashes []"
  "hashes (x # xs) \<longleftrightarrow> length x = 32 \<and> hashes xs"
  "hashes (xs @ ys) \<longleftrightarrow> hashes xs \<and> hashes ys"
  by (simp_all add: hashes_def)

lemma hashes_take [simp]: "hashes xs \<Longrightarrow> hashes (take n xs)"
  and hashes_drop [simp]: "hashes xs \<Longrightarrow> hashes (drop n xs)"
  by (auto simp: hashes_def list_all_iff dest: in_set_takeD in_set_dropD)

lemma hashes_map_leaf [simp]: "sha32 sha \<Longrightarrow> hashes (map (leaf_hash sha) es)"
  by (simp add: hashes_def list_all_iff)

lemma split_n_diff_less: "2 \<le> n \<Longrightarrow> n - split_n n < n"
  using split_n_bounds(1) [of n] by arith

function mth_inputs :: "sha \<Rightarrow> hash list \<Rightarrow> bytes list" where
  "mth_inputs sha xs =
     (if length xs < 2 then []
      else let k = split_n (length xs); l = take k xs; r = drop k xs
        in (0x01 # mth sha l @ mth sha r) # mth_inputs sha l @ mth_inputs sha r)"
  by pat_completeness auto
termination
  by (relation "measure (\<lambda>(sha, xs). length xs)") (auto simp: not_less split_n_bounds split_n_diff_less)

declare mth_inputs.simps [simp del]

fun climb_inputs :: "sha \<Rightarrow> bool list \<Rightarrow> hash list \<Rightarrow> hash \<Rightarrow> bytes list" where
  "climb_inputs sha (d # ds) (p # ps) h =
     (if d then 0x01 # p @ h else 0x01 # h @ p) #
     climb_inputs sha ds ps (if d then node_hash sha p h else node_hash sha h p)"
| "climb_inputs sha _ _ h = []"

fun climb_left_inputs :: "sha \<Rightarrow> bool list \<Rightarrow> hash list \<Rightarrow> hash \<Rightarrow> bytes list" where
  "climb_left_inputs sha (d # ds) (p # ps) h =
     (if d then [0x01 # p @ h] else []) @
     climb_left_inputs sha ds ps (if d then node_hash sha p h else h)"
| "climb_left_inputs sha _ _ h = []"

lemma climb_inputs_snoc:
  "length ds = length ps \<Longrightarrow>
   climb_inputs sha (ds @ [d]) (ps @ [p]) h =
     climb_inputs sha ds ps h @
     [if d then 0x01 # p @ climb sha ds ps h else 0x01 # climb sha ds ps h @ p]"
  by (induction ds ps arbitrary: h rule: list_induct2) auto

lemma climb_left_inputs_snoc:
  "length ds = length ps \<Longrightarrow>
   climb_left_inputs sha (ds @ [d]) (ps @ [p]) h =
     climb_left_inputs sha ds ps h @ (if d then [0x01 # p @ climb_left sha ds ps h] else [])"
  by (induction ds ps arbitrary: h rule: list_induct2) auto

lemma length_mth:
  assumes "sha32 sha" "hashes xs"
  shows "length (mth sha xs) = 32"
proof (cases "length xs < 2")
  case True
  with assms show ?thesis by (cases xs) auto
next
  case False
  with assms show ?thesis by (simp add: mth_split [of xs])
qed

lemma length_climb:
  "sha32 sha \<Longrightarrow> length h = 32 \<Longrightarrow> length (climb sha ds ps h) = 32"
  by (induction sha ds ps h rule: climb.induct) auto

lemma length_climb_left:
  "sha32 sha \<Longrightarrow> length h = 32 \<Longrightarrow> length (climb_left sha ds ps h) = 32"
  by (induction sha ds ps h rule: climb_left.induct) auto

lemma node_hash_inject:
  assumes "inj_on sha X" "0x01 # l @ r \<in> X" "0x01 # l' @ r' \<in> X" "length l = length l'"
  shows "node_hash sha l r = node_hash sha l' r' \<longleftrightarrow> l = l' \<and> r = r'"
  using inj_on_eq_iff [OF assms(1-3)] assms(4) by (simp add: node_hash_def)

lemma leaf_node_distinct:
  assumes "inj_on sha X" "0x00 # e \<in> X" "0x01 # l @ r \<in> X"
  shows "leaf_hash sha e \<noteq> node_hash sha l r"
  using inj_on_eq_iff [OF assms] by (simp add: leaf_hash_def node_hash_def)

lemma leaf_hash_inject:
  assumes "inj_on sha X" "0x00 # e \<in> X" "0x00 # e' \<in> X"
  shows "leaf_hash sha e = leaf_hash sha e' \<longleftrightarrow> e = e'"
  using inj_on_eq_iff [OF assms] by (simp add: leaf_hash_def)

lemma mth_inputs_split:
  assumes "2 \<le> length xs"
  shows "set (mth_inputs sha xs) =
    insert (0x01 # mth sha (take (split_n (length xs)) xs) @ mth sha (drop (split_n (length xs)) xs))
      (set (mth_inputs sha (take (split_n (length xs)) xs)) \<union>
       set (mth_inputs sha (drop (split_n (length xs)) xs)))"
  using assms by (subst mth_inputs.simps) (simp add: Let_def not_less)

text \<open>Equal heads of lists of the same length come from equal lists.\<close>

lemma mth_inject:
  assumes "sha32 sha" "inj_on sha X"
  shows "length xs = length ys \<Longrightarrow> mth sha xs = mth sha ys \<Longrightarrow>
    set (mth_inputs sha xs) \<subseteq> X \<Longrightarrow> set (mth_inputs sha ys) \<subseteq> X \<Longrightarrow>
    hashes xs \<Longrightarrow> hashes ys \<Longrightarrow> xs = ys"
proof (induction "length xs" arbitrary: xs ys rule: less_induct)
  case less
  show ?case
  proof (cases "length xs < 2")
    case True
    with less.prems(1,2) show ?thesis
      by (cases xs; cases ys) auto
  next
    case False
    let ?k = "split_n (length xs)"
    from False have l: "2 \<le> length xs" "2 \<le> length ys" using less.prems(1) by auto
    note k = split_n_bounds [OF l(1)]
    have lens: "length (mth sha (take ?k xs)) = 32" "length (mth sha (take ?k ys)) = 32"
      using assms(1) less.prems(5,6) by (simp_all add: length_mth)
    from mth_inputs_split [OF l(1), of sha] mth_inputs_split [OF l(2), of sha] less.prems(1,3,4)
    have sub: "0x01 # mth sha (take ?k xs) @ mth sha (drop ?k xs) \<in> X"
      "0x01 # mth sha (take ?k ys) @ mth sha (drop ?k ys) \<in> X"
      "set (mth_inputs sha (take ?k xs)) \<subseteq> X" "set (mth_inputs sha (drop ?k xs)) \<subseteq> X"
      "set (mth_inputs sha (take ?k ys)) \<subseteq> X" "set (mth_inputs sha (drop ?k ys)) \<subseteq> X"
      by auto
    have "mth sha (take ?k xs) = mth sha (take ?k ys) \<and> mth sha (drop ?k xs) = mth sha (drop ?k ys)"
      using less.prems(1,2) mth_split [OF l(1), of sha] mth_split [OF l(2), of sha]
        node_hash_inject [OF assms(2) sub(1,2)] lens by simp
    then have "take ?k xs = take ?k ys" "drop ?k xs = drop ?k ys"
      using less.hyps [of "take ?k xs" "take ?k ys"] less.hyps [of "drop ?k xs" "drop ?k ys"]
        k sub less.prems(1,5,6) split_n_diff_less [OF l(1)] by simp_all
    then show ?thesis by (metis append_take_drop_id)
  qed
qed

section \<open>Inclusion\<close>

lemma length_tdirs_le: "n \<le> 2 ^ j \<Longrightarrow> length (tdirs i n) \<le> j"
proof (induction n arbitrary: i j rule: less_induct)
  case (less n)
  show ?case
  proof (cases "n < 2")
    case False
    then have "2 \<le> n" by simp
    then obtain h where h: "split_n n = 2 ^ h" "2 ^ h < n" "n \<le> 2 * 2 ^ h"
      by (rule split_n_obtain)
    with less.prems have "(2::nat) ^ h < 2 ^ j" by linarith
    then have hj: "h < j" by simp
    have "length (tdirs i (2 ^ h)) \<le> h" "length (tdirs (i - 2 ^ h) (n - 2 ^ h)) \<le> h"
      using h by (auto intro!: less.IH)
    with h hj False show ?thesis by (simp add: tdirs.simps [of i n])
  qed simp
qed

lemma length_tdirs_pow2: "length (tdirs i (2 ^ j)) = j"
proof (induction j arbitrary: i)
  case (Suc j)
  have "split_n (2 ^ Suc j) = 2 ^ j" by (rule split_n_eqI) simp_all
  moreover have "\<not> (2::nat) ^ Suc j < 2" by simp
  moreover have "(2::nat) ^ Suc j - 2 ^ j = 2 ^ j" by simp
  ultimately show ?case using Suc by (simp add: tdirs.simps [of i "2 ^ Suc j"] del: power_Suc)
qed simp

lemma length_cdirs_le: "n \<le> 2 ^ j \<Longrightarrow> length (cdirs m n) \<le> j"
proof (induction n arbitrary: m j rule: less_induct)
  case (less n)
  show ?case
  proof (cases "n < 2")
    case True
    then show ?thesis by (simp add: cdirs.simps)
  next
    case False
    then have "2 \<le> n" by simp
    then obtain h where h: "split_n n = 2 ^ h" "2 ^ h < n" "n \<le> 2 * 2 ^ h"
      by (rule split_n_obtain)
    with less.prems have "(2::nat) ^ h < 2 ^ j" by linarith
    then have hj: "h < j" by simp
    have "length (cdirs m (2 ^ h)) \<le> h" "length (cdirs (m - 2 ^ h) (n - 2 ^ h)) \<le> h"
      using h by (auto intro!: less.IH)
    with h hj False show ?thesis by (simp add: cdirs.simps [of m n])
  qed
qed

text \<open>No index has the sides of another one followed by right steps: the path of a smaller tree on
  the right spine is always too short.\<close>

lemma tdirs_no_extra:
  "i < n \<Longrightarrow> i' < n \<Longrightarrow> tdirs i' n = tdirs i n @ replicate c True \<Longrightarrow> i' = i"
proof (induction n arbitrary: i i' rule: less_induct)
  case (less n)
  show ?case
  proof (cases "n < 2")
    case True
    with less.prems show ?thesis by simp
  next
    case False
    then have "2 \<le> n" by simp
    then obtain j where j: "split_n n = 2 ^ j" "2 ^ j < n" "n \<le> 2 * 2 ^ j"
      by (rule split_n_obtain)
    let ?k = "2 ^ j :: nat"
    have un: "tdirs x n = (if x < ?k then tdirs x ?k @ [False] else tdirs (x - ?k) (n - ?k) @ [True])" for x
      using False j by (simp add: tdirs.simps [of x n])
    note eq = less.prems(3) [unfolded un]
    consider "i < ?k" "i' < ?k" | "?k \<le> i" "?k \<le> i'" | "?k \<le> i" "i' < ?k" | "i < ?k" "?k \<le> i'"
      by linarith
    then show ?thesis
    proof cases
      case 1
      with eq have "c = 0" by (cases c) (simp_all add: replicate_append_same [symmetric])
      with 1 eq less.IH [of ?k i i'] j show ?thesis by simp
    next
      case 2
      with eq have "tdirs (i' - ?k) (n - ?k) = tdirs (i - ?k) (n - ?k) @ replicate c True"
        by (simp add: replicate_append_same [symmetric])
      with less.IH [of "n - ?k" "i - ?k" "i' - ?k"] 2 less.prems(1,2) j have "i' - ?k = i - ?k"
        by (auto simp: diff_less_mono)
      with 2 show ?thesis by simp
    next
      case 3
      with eq show ?thesis by (cases c) (simp_all add: replicate_append_same [symmetric])
    next
      case 4
      then have "Suc (length (tdirs (i' - ?k) (n - ?k))) = Suc (length (tdirs i ?k)) + c"
        using arg_cong [OF eq, of length] by simp
      moreover have "length (tdirs (i' - ?k) (n - ?k)) \<le> j"
        using j by (intro length_tdirs_le) simp
      ultimately have "c = 0" by (simp add: length_tdirs_pow2)
      with 4 eq show ?thesis by simp
    qed
  qed
qed

lemma climb_reaches_leaf:
  assumes sha: "sha32 sha" "inj_on sha X"
  shows "length ds = length ps \<Longrightarrow> hashes ps \<Longrightarrow> es \<noteq> [] \<Longrightarrow>
    climb sha ds ps (leaf_hash sha e) = mth sha (map (leaf_hash sha) es) \<Longrightarrow>
    set (climb_inputs sha ds ps (leaf_hash sha e)) \<subseteq> X \<Longrightarrow>
    set (mth_inputs sha (map (leaf_hash sha) es)) \<subseteq> X \<Longrightarrow>
    (#) 0x00 ` insert e (set es) \<subseteq> X \<Longrightarrow>
    \<exists>i < length es. ds = tdirs i (length es) \<and> e = es ! i"
proof (induction ds arbitrary: ps es rule: rev_induct)
  case Nil
  show ?case
  proof (cases "length es < 2")
    case True
    with Nil.prems(3) obtain x where "es = [x]" by (cases es) auto
    with Nil.prems leaf_hash_inject [OF sha(2), of e x] show ?thesis by simp
  next
    case False
    then have l: "2 \<le> length (map (leaf_hash sha) es)" by simp
    with Nil.prems mth_inputs_split [OF l, of sha] mth_split [OF l, of sha] show ?thesis
      using leaf_node_distinct [OF sha(2)] by auto
  qed
next
  case (snoc d ds)
  from snoc.prems(1) obtain qs p where ps: "ps = qs @ [p]" "length ds = length qs"
    by (cases ps rule: rev_cases) auto
  let ?h = "climb sha ds qs (leaf_hash sha e)"
  have hl: "length ?h = 32" "length p = 32"
    using snoc.prems(2) ps sha(1) by (simp_all add: length_climb)
  have top: "node_hash sha (if d then p else ?h) (if d then ?h else p) =
      mth sha (map (leaf_hash sha) es)"
    using snoc.prems(4) ps by (auto simp: climb_snoc)
  have ci: "0x01 # (if d then p else ?h) @ (if d then ?h else p) \<in> X"
      "set (climb_inputs sha ds qs (leaf_hash sha e)) \<subseteq> X"
    using snoc.prems(5) ps by (auto simp: climb_inputs_snoc split: if_splits)
  show ?case
  proof (cases "length es < 2")
    case True
    with snoc.prems(3) obtain x where "es = [x]" by (cases es) auto
    with snoc.prems(7) top leaf_node_distinct [OF sha(2) _ ci(1), of x] show ?thesis by simp
  next
    case False
    then have l: "2 \<le> length (map (leaf_hash sha) es)" by simp
    let ?k = "split_n (length es)"
    from False have n: "0 < ?k" "?k < length es" using split_n_bounds [of "length es"] by auto
    let ?L = "map (leaf_hash sha) (take ?k es)" and ?R = "map (leaf_hash sha) (drop ?k es)"
    have m: "mth sha (map (leaf_hash sha) es) = node_hash sha (mth sha ?L) (mth sha ?R)"
      using mth_split [OF l, of sha] by (simp add: take_map drop_map)
    have mi: "0x01 # mth sha ?L @ mth sha ?R \<in> X" "set (mth_inputs sha ?L) \<subseteq> X" "set (mth_inputs sha ?R) \<subseteq> X"
      using snoc.prems(6) mth_inputs_split [OF l, of sha] by (auto simp: take_map drop_map)
    have eqs: "(if d then p else ?h) = mth sha ?L" "(if d then ?h else p) = mth sha ?R"
      using node_hash_inject [OF sha(2) ci(1) mi(1)] top m hl length_mth [OF sha(1), of ?L] sha(1)
      by (auto split: if_splits)
    have lv: "(#) 0x00 ` insert e (set (take ?k es)) \<subseteq> X" "(#) 0x00 ` insert e (set (drop ?k es)) \<subseteq> X"
      using snoc.prems(7) by (auto dest: in_set_takeD in_set_dropD)
    show ?thesis
    proof (cases d)
      case True
      with snoc.IH [of qs "drop ?k es"] ps snoc.prems(2) n eqs ci mi lv obtain i where
        i: "i < length es - ?k" "ds = tdirs i (length es - ?k)" "e = drop ?k es ! i" by auto
      with True False n show ?thesis
        by (intro exI [of _ "i + ?k"]) (simp add: tdirs.simps [of "i + ?k"] add.commute less_diff_conv)
    next
      case f: False
      with snoc.IH [of qs "take ?k es"] ps snoc.prems(2,3) n eqs ci mi lv obtain i where
        i: "i < ?k" "ds = tdirs i ?k" "e = take ?k es ! i" by (auto simp: min_absorb2)
      with f False n show ?thesis
        by (intro exI [of _ i]) (simp add: tdirs.simps [of i "length es"])
    qed
  qed
qed

definition inclusion_inputs :: "sha \<Rightarrow> bytes \<Rightarrow> nat \<Rightarrow> nat \<Rightarrow> hash list \<Rightarrow> bytes list" where
  "inclusion_inputs sha e i n path =
     (0x00 # e) #
     climb_inputs sha (tdirs i n @ replicate (length path - length (tdirs i n)) True) path (leaf_hash sha e)"

definition log_inputs :: "sha \<Rightarrow> bytes list \<Rightarrow> bytes list" where
  "log_inputs sha es = map ((#) 0x00) es @ mth_inputs sha (map (leaf_hash sha) es)"

lemma verify_inclusion_sound:
  assumes "sha32 sha" "inj_on sha (set (inclusion_inputs sha e i (length es) path) \<union> set (log_inputs sha es))"
    and "hashes path"
    and "verify_inclusion sha (leaf_hash sha e) i (length es) path (mth sha (map (leaf_hash sha) es))"
  shows "i < length es \<and> e = es ! i"
proof -
  let ?n = "length es"
  let ?ds = "tdirs i ?n @ replicate (length path - length (tdirs i ?n)) True"
  from assms(4) have v: "i < ?n" "length (tdirs i ?n) \<le> length path"
      "climb sha ?ds path (leaf_hash sha e) = mth sha (map (leaf_hash sha) es)"
    by (simp_all add: verify_inclusion_iff)
  have "\<exists>i' < ?n. ?ds = tdirs i' ?n \<and> e = es ! i'"
    using v assms(3) by (intro climb_reaches_leaf [OF assms(1,2)])
      (auto simp: inclusion_inputs_def log_inputs_def)
  then obtain i' where "i' < ?n" "?ds = tdirs i' ?n" "e = es ! i'" by blast
  with v(1) tdirs_no_extra [of i ?n i'] show ?thesis by metis
qed

section \<open>Consistency\<close>

lemma climbs_prefix:
  assumes sha: "sha32 sha" "inj_on sha X"
  shows "0 < length ys \<Longrightarrow> length ys \<le> length xs \<Longrightarrow> length ps = length (cdirs (length ys) (length xs)) \<Longrightarrow>
    hashes ps \<Longrightarrow> hashes xs \<Longrightarrow> hashes ys \<Longrightarrow> length seed = 32 \<Longrightarrow>
    climb sha (cdirs (length ys) (length xs)) ps seed = mth sha xs \<Longrightarrow>
    climb_left sha (cdirs (length ys) (length xs)) ps seed = mth sha ys \<Longrightarrow>
    set (climb_inputs sha (cdirs (length ys) (length xs)) ps seed) \<subseteq> X \<Longrightarrow>
    set (climb_left_inputs sha (cdirs (length ys) (length xs)) ps seed) \<subseteq> X \<Longrightarrow>
    set (mth_inputs sha xs) \<subseteq> X \<Longrightarrow> set (mth_inputs sha ys) \<subseteq> X \<Longrightarrow>
    take (length ys) xs = ys"
proof (induction "length xs" arbitrary: xs ys ps rule: less_induct)
  case less
  let ?m = "length ys" and ?n = "length xs"
  show ?case
  proof (cases "?m = ?n")
    case True
    with less.prems mth_inject [OF sha, of xs ys] show ?thesis by simp
  next
    case ne: False
    with less.prems(1,2) have l: "2 \<le> ?n" by linarith
    from l obtain j where j: "split_n ?n = 2 ^ j" "2 ^ j < ?n" "?n \<le> 2 * 2 ^ j"
      by (rule split_n_obtain)
    let ?k = "2 ^ j :: nat"
    let ?L = "take ?k xs" and ?R = "drop ?k xs"
    have cd: "cdirs ?m ?n = (if ?m \<le> ?k then cdirs ?m ?k @ [False] else cdirs (?m - ?k) (?n - ?k) @ [True])"
      using ne l j by (simp add: cdirs.simps [of ?m ?n])
    from less.prems(3) cd obtain qs p where ps: "ps = qs @ [p]"
      by (cases ps rule: rev_cases) (auto split: if_splits)
    have m: "mth sha xs = node_hash sha (mth sha ?L) (mth sha ?R)"
      using mth_split [OF l, of sha] j by simp
    have mi: "0x01 # mth sha ?L @ mth sha ?R \<in> X" "set (mth_inputs sha ?L) \<subseteq> X" "set (mth_inputs sha ?R) \<subseteq> X"
      using less.prems(12) mth_inputs_split [OF l, of sha] j by auto
    have len: "length (mth sha ?L) = 32" "length p = 32" "hashes qs"
      using less.prems(4,5) ps sha(1) by (simp_all add: length_mth)
    show ?thesis
    proof (cases "?m \<le> ?k")
      case True
      let ?ds = "cdirs ?m ?k"
      have q: "length ?ds = length qs" using less.prems(3) cd ps True by simp
      have len_c: "length (climb sha ?ds qs seed) = 32"
        using length_climb [OF sha(1) less.prems(7)] .
      have "node_hash sha (climb sha ?ds qs seed) p = node_hash sha (mth sha ?L) (mth sha ?R)"
        "0x01 # climb sha ?ds qs seed @ p \<in> X"
        using less.prems(8,10) cd True ps q m by (simp_all add: climb_snoc climb_inputs_snoc)
      with node_hash_inject [OF sha(2) _ mi(1)] len len_c
      have "climb sha ?ds qs seed = mth sha ?L" by simp
      then have "take ?m ?L = ys"
        using less.hyps [of ?L ys qs] less.prems cd True ps q mi len j
        by (auto simp: climb_left_snoc climb_inputs_snoc climb_left_inputs_snoc min_absorb2)
      with True show ?thesis by (simp add: min_absorb1)
    next
      case False
      let ?ds = "cdirs (?m - ?k) (?n - ?k)"
      have q: "length ?ds = length qs" using less.prems(3) cd ps False by simp
      let ?c = "climb sha ?ds qs seed" and ?cl = "climb_left sha ?ds qs seed"
      let ?yl = "take ?k ys" and ?yr = "drop ?k ys"
      have sm: "split_n ?m = ?k" using False less.prems(2) j by (intro split_n_eqI) auto
      have "(1::nat) \<le> ?k" by simp
      with False have m2: "2 \<le> ?m" by linarith
      have my: "mth sha ys = node_hash sha (mth sha ?yl) (mth sha ?yr)"
        using mth_split [OF m2, of sha] sm by simp
      have myi: "0x01 # mth sha ?yl @ mth sha ?yr \<in> X" "set (mth_inputs sha ?yl) \<subseteq> X" "set (mth_inputs sha ?yr) \<subseteq> X"
        using less.prems(13) mth_inputs_split [OF m2, of sha] sm by auto
      have lenyl: "length (mth sha ?yl) = 32"
        using less.prems(6) sha(1) by (simp add: length_mth)
      have "node_hash sha p ?c = node_hash sha (mth sha ?L) (mth sha ?R)" "0x01 # p @ ?c \<in> X"
        using less.prems(8,10) cd False ps q m by (simp_all add: climb_snoc climb_inputs_snoc)
      with node_hash_inject [OF sha(2) _ mi(1)] len have c: "p = mth sha ?L" "?c = mth sha ?R" by simp_all
      have "node_hash sha p ?cl = node_hash sha (mth sha ?yl) (mth sha ?yr)" "0x01 # p @ ?cl \<in> X"
        using less.prems(9,11) cd False ps q my by (simp_all add: climb_left_snoc climb_left_inputs_snoc)
      with node_hash_inject [OF sha(2) _ myi(1)] len lenyl
      have cl: "p = mth sha ?yl" "?cl = mth sha ?yr" by simp_all
      have left: "?L = ?yl"
        using mth_inject [OF sha, of ?L ?yl] c(1) cl(1) mi(2) myi(2) less.prems(2,5,6) False j by simp
      have "take (length ?yr) ?R = ?yr"
        using less.hyps [of ?R ?yr qs] less.prems cd False ps q mi myi len j c(2) cl(2)
        by (auto simp: climb_inputs_snoc climb_left_inputs_snoc)
      then have "take ?m xs = take ?k xs @ ?yr"
        using False by (metis drop_take length_drop less_imp_le not_le append_take_drop_id take_take min_def)
      with left show ?thesis by (metis append_take_drop_id)
    qed
  qed
qed

definition consistency_inputs :: "sha \<Rightarrow> nat \<Rightarrow> hash \<Rightarrow> nat \<Rightarrow> hash list \<Rightarrow> bytes list" where
  "consistency_inputs sha m r1 n proof =
     (case (if pow2 m then [r1] else []) @ proof of
        [] \<Rightarrow> []
      | seed # rest \<Rightarrow>
          climb_inputs sha (cdirs m n) rest seed @ climb_left_inputs sha (cdirs m n) rest seed)"

lemma verify_consistency_sound:
  assumes sha: "sha32 sha"
    and inj: "inj_on sha (set (consistency_inputs sha (length es1) r1 (length es2) proof) \<union>
                  set (log_inputs sha es1) \<union> set (log_inputs sha es2))"
    and "hashes proof"
    and r: "r1 = mth sha (map (leaf_hash sha) es1)" "r2 = mth sha (map (leaf_hash sha) es2)"
    and ok: "verify_consistency sha (length es1) r1 (length es2) r2 proof"
  shows "length es1 \<le> length es2 \<and> take (length es1) es2 = es1"
proof -
  let ?xs = "map (leaf_hash sha) es2" and ?ys = "map (leaf_hash sha) es1"
  let ?X = "set (consistency_inputs sha (length es1) r1 (length es2) proof) \<union>
            set (log_inputs sha es1) \<union> set (log_inputs sha es2)"
  from ok have le: "length es1 \<le> length es2"
    by (auto simp: verify_consistency_def split: if_splits)
  have sub: "set (mth_inputs sha ?xs) \<subseteq> ?X" "set (mth_inputs sha ?ys) \<subseteq> ?X"
    by (auto simp: log_inputs_def)
  consider "es1 = []" | "length es1 = length es2" | "0 < length es1" "length es1 < length es2"
    using le by fastforce
  then have "take (length ?ys) ?xs = ?ys"
  proof cases
    case 2
    with ok r have "mth sha ?ys = mth sha ?xs"
      by (auto simp: verify_consistency_def)
    with mth_inject [OF sha inj, of ?ys ?xs] sub 2 sha show ?thesis by simp
  next
    case 3
    from ok verify_consistency_iff [OF 3] obtain seed rest where
      pr: "(if pow2 (length es1) then [r1] else []) @ proof = seed # rest"
        "length rest = length (cdirs (length es1) (length es2))"
        "climb_left sha (cdirs (length es1) (length es2)) rest seed = r1"
        "climb sha (cdirs (length es1) (length es2)) rest seed = r2" by blast
    have ci: "consistency_inputs sha (length es1) r1 (length es2) proof =
        climb_inputs sha (cdirs (length es1) (length es2)) rest seed @
        climb_left_inputs sha (cdirs (length es1) (length es2)) rest seed"
      unfolding consistency_inputs_def pr(1) by simp
    have "hashes (seed # rest)"
      unfolding pr(1) [symmetric] using assms(3) r sha by (auto simp: length_mth)
    then have "hashes rest" "length seed = 32" by simp_all
    moreover have "set (climb_inputs sha (cdirs (length es1) (length es2)) rest seed) \<subseteq> ?X"
      "set (climb_left_inputs sha (cdirs (length es1) (length es2)) rest seed) \<subseteq> ?X"
      by (auto simp: ci)
    ultimately show ?thesis
      using climbs_prefix [OF sha inj, of ?ys ?xs rest seed] 3 pr(2-4) r sub sha by simp
  qed simp
  then have "map (leaf_hash sha) (take (length es1) es2) = map (leaf_hash sha) es1"
    by (simp add: take_map)
  moreover have "inj_on (leaf_hash sha) (set (take (length es1) es2) \<union> set es1)"
    by (intro inj_onI, subst (asm) leaf_hash_inject [OF inj])
       (auto simp: log_inputs_def dest: in_set_takeD)
  ultimately have "take (length es1) es2 = es1"
    by (rule map_inj_on)
  with le show ?thesis by simp
qed

end
