(* ===== verification/Log_Interface.thy ===== *)
theory Log_Interface
  imports Merkle_Sound
begin

text \<open>
  The interface between the transparency log and the enclave that keeps one: what the request
  handlers of \<open>services/pzdr-enclave/src/main.rs\<close> rely on when they append a proof, hand out a
  receipt or answer a ledger query. The locale states the contract; its lemmas about histories of
  appends are proved once here and used by the enclave through the interpretation on the RFC 6962
  log.
\<close>

definition add_all :: "('log \<Rightarrow> 'e \<Rightarrow> 'log \<times> nat) \<Rightarrow> 'log \<Rightarrow> 'e list \<Rightarrow> 'log" where
  "add_all add l es = foldl (\<lambda>l e. fst (add l e)) l es"

lemma add_all_simps [simp]:
  "add_all add l [] = l"
  "add_all add l (e # es) = add_all add (fst (add l e)) es"
  by (simp_all add: add_all_def)

locale verifiable_log =
  fixes size_of :: "'log \<Rightarrow> nat"
    and add :: "'log \<Rightarrow> 'e \<Rightarrow> 'log \<times> nat"
    and head :: "'log \<Rightarrow> 'h"
    and head_at :: "'log \<Rightarrow> nat \<Rightarrow> 'h option"
    and entry_hash :: "'log \<Rightarrow> nat \<Rightarrow> 'h option"
    and incl :: "'log \<Rightarrow> nat \<Rightarrow> 'h list option option"
    and cons :: "'log \<Rightarrow> nat \<Rightarrow> 'h list option option"
    and check_incl :: "'h \<Rightarrow> nat \<Rightarrow> nat \<Rightarrow> 'h list \<Rightarrow> 'h \<Rightarrow> bool"
    and check_cons :: "nat \<Rightarrow> 'h \<Rightarrow> nat \<Rightarrow> 'h \<Rightarrow> 'h list \<Rightarrow> bool"
  assumes add_index: "snd (add l e) = size_of l"
    and add_size: "size_of (fst (add l e)) = Suc (size_of l)"
    and add_heads: "n \<le> size_of l \<Longrightarrow> head_at (fst (add l e)) n = head_at l n"
    and add_entries: "i < size_of l \<Longrightarrow> entry_hash (fst (add l e)) i = entry_hash l i"
    and head_now: "head_at l (size_of l) = Some (head l)"
    and head_beyond: "size_of l < n \<Longrightarrow> head_at l n = None"
    and entry_beyond: "size_of l \<le> i \<Longrightarrow> entry_hash l i = None"
    and incl_beyond: "size_of l \<le> i \<Longrightarrow> incl l i = Some None"
    and cons_beyond: "size_of l < m \<Longrightarrow> cons l m = Some None"
    and incl_ok: "i < size_of l \<Longrightarrow>
      \<exists>h p. entry_hash l i = Some h \<and> incl l i = Some (Some p) \<and> check_incl h i (size_of l) p (head l)"
    and cons_ok: "m \<le> size_of l \<Longrightarrow>
      \<exists>r p. head_at l m = Some r \<and> cons l m = Some (Some p) \<and> check_cons m r (size_of l) (head l) p"
begin

lemma history_size: "size_of (add_all add l es) = size_of l + length es"
  by (induction es arbitrary: l) (simp_all add: add_size)

lemma history_heads: "n \<le> size_of l \<Longrightarrow> head_at (add_all add l es) n = head_at l n"
  by (induction es arbitrary: l) (simp_all add: add_size add_heads)

lemma history_entries: "i < size_of l \<Longrightarrow> entry_hash (add_all add l es) i = entry_hash l i"
  by (induction es arbitrary: l) (simp_all add: add_size add_entries)

text \<open>The head published at an earlier time is provably a prefix of every later one.\<close>

lemma history_consistent:
  "\<exists>p. cons (add_all add l es) (size_of l) = Some (Some p) \<and>
       check_cons (size_of l) (head l) (size_of (add_all add l es)) (head (add_all add l es)) p"
  using cons_ok [of "size_of l" "add_all add l es"] history_heads [of "size_of l" l es] head_now [of l]
  by (simp add: history_size)

text \<open>A fresh entry gets a receipt that verifies under the new head, and keeps its hash.\<close>

lemma receipt_ok:
  assumes "add l e = (l', i)"
  shows "\<exists>h p. entry_hash l' i = Some h \<and> incl l' i = Some (Some p) \<and>
    check_incl h i (size_of l') p (head l')"
  using incl_ok [of i l'] add_index [of l e] add_size [of l e] assms by simp

lemma incl_returns: "incl l i \<noteq> None"
  using incl_ok [of i l] incl_beyond [of l i] by (cases "i < size_of l") force+

lemma cons_returns: "cons l m \<noteq> None"
  using cons_ok [of m l] cons_beyond [of l m] by (cases "m \<le> size_of l") force+

end

section \<open>The RFC 6962 log provides the interface\<close>

lemma fst_log_append [simp]: "leaves (fst (log_append sha log e)) = leaves log @ [leaf_hash sha e]"
  by (simp add: log_append_def Let_def)

lemma snd_log_append [simp]: "snd (log_append sha log e) = log_size log"
  by (simp add: log_append_def log_size_def Let_def)

interpretation tlog: verifiable_log log_size "log_append sha" "root sha" "root_at sha" leaf_at
  "inclusion_path sha" "consistency_path sha" "verify_inclusion sha" "verify_consistency sha"
  for sha
proof (unfold_locales, goal_cases)
  case (10 i l)
  then have i: "i < length (leaves l)" by (simp add: log_size_def)
  from inclusion_climb [OF i, of sha] obtain p where
    "inclusion sha (leaves l) i = Some p" "length p = length (tdirs i (length (leaves l)))"
    "climb sha (tdirs i (length (leaves l))) p (leaves l ! i) = mth sha (leaves l)" by blast
  with i show ?case
    by (simp add: log_size_def leaf_at_def inclusion_path_def root_def verify_inclusion_iff)
next
  case (11 m l)
  let ?n = "length (leaves l)"
  from 11 consider "m = 0" "0 < ?n" | "m = ?n" | "0 < m" "m < ?n"
    by (fastforce simp: log_size_def)
  then show ?case
  proof cases
    case 3
    with subproof_climb [of m "leaves l" sha] obtain base sibs where
      "subproof sha m (leaves l) True = Some ((if pow2 m then [] else [base]) @ sibs)"
      "length sibs = length (cdirs m ?n)"
      "climb sha (cdirs m ?n) sibs base = mth sha (leaves l)"
      "climb_left sha (cdirs m ?n) sibs base = mth sha (take m (leaves l))"
      "pow2 m \<longrightarrow> base = mth sha (take m (leaves l))" by fastforce
    with 3 show ?thesis
      by (auto simp: log_size_def root_at_def consistency_path_def root_def verify_consistency_iff)
  qed (auto simp: log_size_def root_at_def consistency_path_def root_def verify_consistency_def)
qed (auto simp: log_size_def root_def root_at_def leaf_at_def inclusion_path_def
      consistency_path_def nth_append)

end
