(* ===== verification/Transparency_Props.thy ===== *)
theory Transparency_Props
  imports Log_Interface
begin

text \<open>
  The properties of the transparency log: the generated proofs verify, the verifiers accept nothing
  else unless SHA-256 collides on the strings hashed, appends never change a past tree head, and the
  split loop on 64-bit words. \<open>log_of\<close> is the log that a sequence of appends builds.
\<close>

definition log_of :: "sha \<Rightarrow> bytes list \<Rightarrow> transparency_log" where
  "log_of sha es = add_all (log_append sha) new_log es"

lemma leaves_add_all: "leaves (add_all (log_append sha) l es) = leaves l @ map (leaf_hash sha) es"
  by (induction es arbitrary: l) simp_all

lemma leaves_log_of [simp]: "leaves (log_of sha es) = map (leaf_hash sha) es"
  by (simp add: log_of_def leaves_add_all new_log_def)

lemma log_size_log_of [simp]: "log_size (log_of sha es) = length es"
  by (simp add: log_size_def)

lemma root_log_of: "root sha (log_of sha es) = mth sha (map (leaf_hash sha) es)"
  by (simp add: root_def)

text \<open>A 32-byte tag in place of SHA-256, to evaluate concrete logs of one-byte entries.\<close>

definition demo_sha :: sha where
  "demo_sha x = replicate 32 (case x of [t, b] \<Rightarrow> b | _ \<Rightarrow> 65)"

lemma sha32_demo: "sha32 demo_sha"
  by (simp add: sha32_def demo_sha_def)

lemma demo_leaf: "leaf_hash demo_sha [b] = replicate 32 b"
  by (simp add: leaf_hash_def demo_sha_def)

lemma demo_node:
  "length l = 32 \<Longrightarrow> length r = 32 \<Longrightarrow> node_hash demo_sha l r = replicate 32 65"
  by (cases l; cases r) (auto simp: node_hash_def demo_sha_def split: list.split)

lemma split_n_2 [simp]: "split_n 2 = 1" "split_n (Suc (Suc 0)) = 1"
  using split_n_eqI [of 0 2] by (simp_all add: numeral_2_eq_2)

lemma mth_pair: "mth sha [a, b] = node_hash sha a b"
  by (simp add: mth_split)

lemma mth_inputs_single [simp]: "mth_inputs sha [a] = []"
  by (simp add: mth_inputs.simps)

lemma mth_inputs_pair: "mth_inputs sha [a, b] = [0x01 # a @ b]"
  by (simp add: mth_inputs.simps [of sha "[a, b]"])

lemma dirs_pair [simp]:
  "tdirs 0 2 = [False]" "cdirs (Suc 0) 2 = [False]"
  "tdirs 0 (Suc (Suc 0)) = [False]" "cdirs (Suc 0) (Suc (Suc 0)) = [False]"
  by (simp_all add: tdirs.simps [of 0] cdirs.simps [of "Suc 0"])

lemmas demo_simps = root_log_of mth_pair mth_inputs_pair demo_leaf demo_node log_inputs_def
  inclusion_inputs_def consistency_inputs_def pow2_def

lemma demo_inj: "inj_on demo_sha {[0, 1], [0, 2], 1 # replicate 32 1 @ replicate 32 2}"
proof -
  have "demo_sha [0, b] = replicate 32 b" for b
    by (simp add: demo_sha_def)
  moreover have "demo_sha (1 # replicate 32 1 @ replicate 32 2) = replicate 32 65"
    using demo_node [of "replicate 32 1" "replicate 32 2"] by (simp add: node_hash_def)
  ultimately show ?thesis by (auto simp: inj_on_def)
qed

section \<open>Properties\<close>

text \<open>C1. Every inclusion proof the log generates is accepted by the verifier: for an index in
  range, \<open>inclusion_path\<close> returns a path, and \<open>verify_inclusion\<close> accepts it for the stored leaf hash
  under the current root and size. The number of leaves is arbitrary (the unit tests of the code try
  up to 40).\<close>

theorem inclusion_path_verifies:
  assumes "idx < log_size log"
  shows "\<exists>leaf path. leaf_at log idx = Some leaf \<and> inclusion_path sha log idx = Some (Some path) \<and>
    verify_inclusion sha leaf idx (log_size log) path (root sha log)"
  using assms by (rule tlog.incl_ok)

theorem inclusion_path_verifies_witness:
  "\<exists>leaf path. leaf_at (log_of demo_sha [[1], [2], [3]]) 2 = Some leaf \<and>
    inclusion_path demo_sha (log_of demo_sha [[1], [2], [3]]) 2 = Some (Some path) \<and>
    verify_inclusion demo_sha leaf 2 (log_size (log_of demo_sha [[1], [2], [3]])) path
      (root demo_sha (log_of demo_sha [[1], [2], [3]]))"
  by (rule inclusion_path_verifies) simp

text \<open>C2. Every consistency proof the log generates is accepted: for any earlier size \<open>m\<close>, 0 and the
  current size included, \<open>root_at\<close> and \<open>consistency_path\<close> return and \<open>verify_consistency\<close> accepts the
  pair of heads.\<close>

theorem consistency_path_verifies:
  assumes "m \<le> log_size log"
  shows "\<exists>from_root path. root_at sha log m = Some from_root \<and>
    consistency_path sha log m = Some (Some path) \<and>
    verify_consistency sha m from_root (log_size log) (root sha log) path"
  using assms by (rule tlog.cons_ok)

theorem consistency_path_verifies_witness:
  "\<exists>from_root path. root_at demo_sha (log_of demo_sha [[1], [2], [3]]) 2 = Some from_root \<and>
    consistency_path demo_sha (log_of demo_sha [[1], [2], [3]]) 2 = Some (Some path) \<and>
    verify_consistency demo_sha 2 from_root (log_size (log_of demo_sha [[1], [2], [3]]))
      (root demo_sha (log_of demo_sha [[1], [2], [3]])) path"
  by (rule consistency_path_verifies) simp

text \<open>C3. Soundness of inclusion: if the verifier accepts a path for the leaf hash of an entry at an
  index under the root and size of a log, that entry was appended at that index, unless SHA-256
  collides on the strings that this verification and the log hash. The path is any list of 32-byte
  hashes, also one longer than the tree is deep, which the loop does not reject by length.\<close>

theorem inclusion_sound:
  assumes "sha32 sha"
    and "hashes path"
    and "inj_on sha (set (inclusion_inputs sha entry idx (length es) path) \<union> set (log_inputs sha es))"
    and "verify_inclusion sha (leaf_hash sha entry) idx (log_size (log_of sha es)) path
           (root sha (log_of sha es))"
  shows "idx < length es \<and> entry = es ! idx"
  using assms by (intro verify_inclusion_sound) (simp_all add: root_log_of)

theorem inclusion_sound_witness: "(0::nat) < length [[1], [2::byte]] \<and> [1::byte] = [[1], [2]] ! 0"
proof (rule inclusion_sound [of demo_sha "[leaf_hash demo_sha [2]]" "[1]" 0 "[[1], [2]]"])
  show "inj_on demo_sha (set (inclusion_inputs demo_sha [1] 0 (length [[1], [2::byte]]) [leaf_hash demo_sha [2]])
      \<union> set (log_inputs demo_sha [[1], [2]]))"
    by (rule inj_on_subset [OF demo_inj]) (auto simp: demo_simps)
qed (simp_all add: sha32_demo verify_inclusion_iff demo_simps)

text \<open>C4. Soundness of consistency: if the verifier accepts a proof between the heads of two logs,
  the older log is a prefix of the newer one, unless SHA-256 collides on the strings hashed. A log
  that forked, dropped or rewrote an entry has no accepted proof.\<close>

theorem consistency_sound:
  assumes "sha32 sha"
    and "hashes proof"
    and "inj_on sha (set (consistency_inputs sha (length es1) (root sha (log_of sha es1)) (length es2) proof)
           \<union> set (log_inputs sha es1) \<union> set (log_inputs sha es2))"
    and "verify_consistency sha (log_size (log_of sha es1)) (root sha (log_of sha es1))
           (log_size (log_of sha es2)) (root sha (log_of sha es2)) proof"
  shows "length es1 \<le> length es2 \<and> take (length es1) es2 = es1"
  using assms by (intro verify_consistency_sound [of sha es1 "root sha (log_of sha es1)" es2 "proof"
      "root sha (log_of sha es2)"]) (simp_all add: root_log_of)

theorem consistency_sound_witness:
  "length [[1::byte]] \<le> length [[1], [2::byte]] \<and> take (length [[1::byte]]) [[1], [2]] = [[1::byte]]"
proof (rule consistency_sound [of demo_sha "[leaf_hash demo_sha [2]]"])
  show "inj_on demo_sha (set (consistency_inputs demo_sha (length [[1::byte]]) (root demo_sha (log_of demo_sha [[1]]))
        (length [[1], [2::byte]]) [leaf_hash demo_sha [2]])
      \<union> set (log_inputs demo_sha [[1]]) \<union> set (log_inputs demo_sha [[1], [2]]))"
    by (rule inj_on_subset [OF demo_inj]) (auto simp: demo_simps)
qed (simp_all add: sha32_demo verify_consistency_iff demo_simps)

text \<open>The recursions behind the proofs always return: \<open>inclusion_path\<close> and \<open>consistency_path\<close> end on
  every log and argument, with \<open>None\<close> exactly for an index or size out of range. (The private
  \<open>inclusion\<close> itself does not end on an empty slice.)\<close>

lemma paths_return:
  "inclusion_path sha log idx \<noteq> None \<and> consistency_path sha log m \<noteq> None \<and>
   (inclusion_path sha log idx = Some None \<longleftrightarrow> log_size log \<le> idx) \<and>
   (consistency_path sha log m = Some None \<longleftrightarrow> log_size log < m)"
  using tlog.incl_returns [of sha log idx] tlog.cons_returns [of sha log m]
  by (auto simp: inclusion_path_def consistency_path_def log_size_def)

definition typed_path :: "sha \<Rightarrow> hash list \<Rightarrow> hash list \<Rightarrow> bool" where
  "typed_path sha xs p \<longleftrightarrow> (sha32 sha \<longrightarrow> hashes xs \<longrightarrow> hashes p)"

lemma typed_path_snoc:
  "typed_path sha (take k xs) p \<Longrightarrow> typed_path sha xs (p @ [mth sha (drop k xs)])"
  "typed_path sha (drop k xs) p \<Longrightarrow> typed_path sha xs (p @ [mth sha (take k xs)])"
  by (simp_all add: typed_path_def length_mth)

lemma inclusion_typed: "inclusion sha xs i = Some p \<Longrightarrow> typed_path sha xs p"
proof (rule inclusion.raw_induct [of "\<lambda>sha xs i. typed_path sha xs"], goal_cases)
  case (1 incl sha xs i p)
  from 1(3) consider "p = []"
    | q where "incl sha (take (split_n (length xs)) xs) i = Some q" "p = q @ [mth sha (drop (split_n (length xs)) xs)]"
    | q where "incl sha (drop (split_n (length xs)) xs) (i - split_n (length xs)) = Some q"
        "p = q @ [mth sha (take (split_n (length xs)) xs)]"
    by (auto simp: Let_def bind_eq_Some_conv split: if_splits)
  then show ?case
    by cases (auto simp: typed_path_def [of _ _ "[]"] intro!: typed_path_snoc dest: 1(2))
qed

lemma subproof_typed: "subproof sha m xs b = Some p \<Longrightarrow> typed_path sha xs p"
proof (rule subproof.raw_induct [of "\<lambda>sha m xs b. typed_path sha xs"], goal_cases)
  case (1 sub sha m xs b p)
  from 1(3) consider "p = (if b then [] else [mth sha xs])"
    | q where "sub sha m (take (split_n (length xs)) xs) b = Some q" "p = q @ [mth sha (drop (split_n (length xs)) xs)]"
    | q where "sub sha (m - split_n (length xs)) (drop (split_n (length xs)) xs) False = Some q"
        "p = q @ [mth sha (take (split_n (length xs)) xs)]"
    by (auto simp: Let_def bind_eq_Some_conv split: if_splits)
  then show ?case
    by cases (auto simp: typed_path_def [of _ _ "[]"] typed_path_def [of _ _ "[_]"] length_mth
        intro!: typed_path_snoc dest: 1(2))
qed

text \<open>C5. Every hash is 32 bytes, and there is always an answer: if the log holds hashes of 32 bytes, as
  \<open>[u8; 32]\<close> says, so do its heads, every stored leaf and both kinds of path, appending keeps it so, and
  path generation returns on every index and size, with \<open>None\<close> exactly when it is out of range.\<close>

theorem hashes_typed:
  assumes "sha32 sha" and "hashes (leaves log)"
  shows "hashes (leaves (fst (log_append sha log e))) \<and> hashes [root sha log] \<and>
    hashes (case root_at sha log m of None \<Rightarrow> [] | Some r \<Rightarrow> [r]) \<and>
    hashes (case leaf_at log idx of None \<Rightarrow> [] | Some h \<Rightarrow> [h]) \<and>
    (\<exists>p. inclusion_path sha log idx = Some p \<and> (p = None \<longleftrightarrow> log_size log \<le> idx) \<and>
       hashes (case p of None \<Rightarrow> [] | Some path \<Rightarrow> path)) \<and>
    (\<exists>p. consistency_path sha log m = Some p \<and> (p = None \<longleftrightarrow> log_size log < m) \<and>
       hashes (case p of None \<Rightarrow> [] | Some path \<Rightarrow> path))"
proof -
  obtain p where p: "inclusion_path sha log idx = Some p" "p = None \<longleftrightarrow> log_size log \<le> idx"
    using paths_return [of sha log idx m] by auto
  have "hashes (case p of None \<Rightarrow> [] | Some path \<Rightarrow> path)"
    using p(1) assms by (auto simp: inclusion_path_def typed_path_def dest: inclusion_typed split: if_splits)
  moreover obtain q where q: "consistency_path sha log m = Some q" "q = None \<longleftrightarrow> log_size log < m"
    using paths_return [of sha log idx m] by auto
  have "hashes (case q of None \<Rightarrow> [] | Some path \<Rightarrow> path)"
    using q(1) assms by (auto simp: consistency_path_def typed_path_def dest: subproof_typed split: if_splits)
  moreover have "hashes (case leaf_at log idx of None \<Rightarrow> [] | Some h \<Rightarrow> [h])"
    using assms(2) by (auto simp: leaf_at_def hashes_def list_all_length)
  ultimately show ?thesis
    using p q assms by (simp add: root_def root_at_def length_mth)
qed

theorem hashes_typed_witness:
  "hashes [root demo_sha (log_of demo_sha [[1], [2]])] \<and>
   (\<exists>p. inclusion_path demo_sha (log_of demo_sha [[1], [2]]) 1 = Some p \<and>
      (p = None \<longleftrightarrow> log_size (log_of demo_sha [[1], [2]]) \<le> 1) \<and> hashes (case p of None \<Rightarrow> [] | Some path \<Rightarrow> path))"
proof -
  have "hashes (leaves (log_of demo_sha [[1], [2]]))" by (simp add: sha32_demo)
  from hashes_typed [OF sha32_demo this] show ?thesis by blast
qed

text \<open>C6. The log is append-only: appending entries, in any number, keeps every past tree head and
  every stored leaf hash, adds one leaf per entry and gives the next index to the new entry.\<close>

theorem append_only:
  "log_size (add_all (log_append sha) log es) = log_size log + length es \<and>
   (n \<le> log_size log \<longrightarrow> root_at sha (add_all (log_append sha) log es) n = root_at sha log n) \<and>
   (i < log_size log \<longrightarrow> leaf_at (add_all (log_append sha) log es) i = leaf_at log i) \<and>
   snd (log_append sha log e) = log_size log \<and>
   leaf_at (fst (log_append sha log e)) (log_size log) = Some (leaf_hash sha e)"
  using tlog.history_size [of sha log es] tlog.history_heads [of n log sha es]
    tlog.history_entries [of i log sha es]
  by (auto simp: leaf_at_def log_size_def)

theorem append_only_witness:
  "root_at demo_sha (add_all (log_append demo_sha) (log_of demo_sha [[1]]) [[2]]) 1 =
     root_at demo_sha (log_of demo_sha [[1]]) 1"
  using append_only [of demo_sha "log_of demo_sha [[1]]" "[[2]]" 1] by simp

text \<open>C7. A tree head determines the log: two logs of the same size and root hold the same entries,
  unless SHA-256 collides on the strings the two logs hash.\<close>

theorem root_binds_entries:
  assumes "sha32 sha" "inj_on sha (set (log_inputs sha es1) \<union> set (log_inputs sha es2))"
    and "log_size (log_of sha es1) = log_size (log_of sha es2)"
    and "root sha (log_of sha es1) = root sha (log_of sha es2)"
  shows "es1 = es2"
proof -
  have "verify_consistency sha (length es1) (root sha (log_of sha es1)) (length es2) (root sha (log_of sha es2)) []"
    using assms(3,4) by (simp add: verify_consistency_def)
  with verify_consistency_sound [OF assms(1), of es1 "root sha (log_of sha es1)" es2 "[]"] assms
  show ?thesis by (simp add: root_log_of consistency_inputs_def pow2_def)
qed

theorem root_binds_entries_witness: "[[1::byte], [2]] = [[1], [2]]"
proof (rule root_binds_entries [of demo_sha])
  show "inj_on demo_sha (set (log_inputs demo_sha [[1], [2]]) \<union> set (log_inputs demo_sha [[1], [2]]))"
    by (rule inj_on_subset [OF demo_inj]) (auto simp: demo_simps)
qed (simp_all add: sha32_demo)

text \<open>C8. Proofs are logarithmic: in a log of at most \<open>2 ^ j\<close> entries an inclusion path has at most
  \<open>j\<close> hashes and a consistency proof at most \<open>j + 1\<close>.\<close>

theorem proof_length_bound:
  assumes "log_size log \<le> 2 ^ j" and "idx < log_size log" and "m \<le> log_size log"
  shows "\<exists>path cpath. inclusion_path sha log idx = Some (Some path) \<and> length path \<le> j \<and>
    consistency_path sha log m = Some (Some cpath) \<and> length cpath \<le> j + 1"
proof -
  obtain path where path: "inclusion_path sha log idx = Some (Some path)"
    using tlog.incl_ok [OF assms(2)] by blast
  with assms inclusion_climb [of idx "leaves log" sha] length_tdirs_le [of "length (leaves log)" j idx]
  have "length path \<le> j" by (auto simp: inclusion_path_def log_size_def)
  moreover obtain cpath where p: "consistency_path sha log m = Some (Some cpath)"
    using tlog.cons_ok [OF assms(3)] by blast
  moreover have "length cpath \<le> j + 1"
  proof (cases "0 < m \<and> m < length (leaves log)")
    case True
    with p subproof_climb [of m "leaves log" sha] length_cdirs_le [of "length (leaves log)" j m] assms
    show ?thesis by (auto simp: consistency_path_def log_size_def)
  next
    case False
    with p show ?thesis by (auto simp: consistency_path_def split: if_splits)
  qed
  ultimately show ?thesis using path by blast
qed

theorem proof_length_bound_witness:
  "\<exists>path cpath. inclusion_path demo_sha (log_of demo_sha [[1], [2]]) 0 = Some (Some path) \<and> length path \<le> 1 \<and>
    consistency_path demo_sha (log_of demo_sha [[1], [2]]) 1 = Some (Some cpath) \<and> length cpath \<le> 1 + 1"
  by (rule proof_length_bound) simp_all

text \<open>C9. The split loop on 64-bit words: for \<open>n\<close> of at least 2 and up to \<open>2 ^ 63\<close> it returns the largest power of two
  strictly below \<open>n\<close>, which is the split RFC 6962 asks for, and so does \<open>split_n\<close>, the loop on lengths the tree
  hash of this development recurses on; below 2 it returns 0, which no caller uses;
  above \<open>2 ^ 63\<close> the shifted bit falls out and the loop never ends. A vector of 32-byte hashes has fewer than
  \<open>2 ^ 58\<close> elements, so the log is never near this bound.\<close>

theorem split_w_bounds:
  "if unat n < 2 then split_w n = Some 0
   else if unat n \<le> 2 ^ 63 then
     \<exists>k j. split_w n = Some k \<and> unat k = 2 ^ j \<and> 2 ^ j < unat n \<and> (\<nexists>i. (2 :: nat) ^ j < 2 ^ i \<and> 2 ^ i < unat n) \<and>
       split_n (unat n) = 2 ^ j
   else split_w n = None"
proof -
  consider "unat n < 2" | "2 \<le> unat n" "unat n \<le> 2 ^ 63" | "2 ^ 63 < unat n" by linarith
  then show ?thesis
  proof cases
    case 1
    then consider "unat n = 0" | "unat n = Suc 0" by linarith
    then have "split_n (unat n) = 0" by cases simp_all
    with 1 show ?thesis by (simp add: split_w_eq)
  next
    case 2
    from 2(1) obtain j where j: "split_n (unat n) = 2 ^ j" "2 ^ j < unat n" "unat n \<le> 2 * 2 ^ j"
      by (rule split_n_obtain)
    then have "unat (word_of_nat (2 ^ j) :: usize) = 2 ^ j"
      using unsigned_less [of n, where ?'a = nat] by (simp add: unat_of_nat del: of_nat_power)
    moreover have "\<nexists>i. 2 ^ j < (2 :: nat) ^ i \<and> 2 ^ i < unat n"
    proof
      assume "\<exists>i. 2 ^ j < (2 :: nat) ^ i \<and> 2 ^ i < unat n"
      then obtain i where i: "2 ^ j < (2 :: nat) ^ i" "2 ^ i < unat n" by blast
      from i(1) have "Suc j \<le> i" by (simp add: Suc_leI)
      then have "(2 :: nat) ^ Suc j \<le> 2 ^ i" by (rule power_increasing) simp
      with i(2) j(3) show False by simp
    qed
    ultimately show ?thesis using 2 j by (auto simp: split_w_eq simp del: of_nat_power)
  next
    case 3
    then show ?thesis by (simp add: split_w_eq)
  qed
qed

end
