(* ===== verification/Ordered_Map.thy ===== *)
theory Ordered_Map
  imports PZDR_Prelude
begin

text \<open>
  Maps with an iteration order, as association lists in that order: the standard library's
  \<open>BTreeMap\<close> (ascending keys), which holds the PCR values of an attestation document and backs
  \<open>serde_json::Map\<close> in this build, and the insertion-ordered map that backs it under the feature
  \<open>preserve_order\<close>. The locale \<open>object_map\<close> states what the key sorting relies on.
\<close>

definition keys_of :: "('k \<times> 'v) list \<Rightarrow> 'k list" where
  "keys_of m = map fst m"

lemma keys_of_simps [simp]:
  "keys_of [] = []"
  "keys_of ((k, v) # m) = k # keys_of m"
  "keys_of (m @ n) = keys_of m @ keys_of n"
  by (simp_all add: keys_of_def)

lemma map_of_eq_None_iff_keys: "map_of m k = None \<longleftrightarrow> k \<notin> set (keys_of m)"
  by (simp add: map_of_eq_None_iff keys_of_def)

lemma map_of_in_keys: "map_of m k = Some v \<Longrightarrow> k \<in> set (keys_of m)"
  using map_of_eq_None_iff_keys [of m k] by auto

lemma keys_of_obtain: "k \<in> set (keys_of m) \<Longrightarrow> \<exists>v. map_of m k = Some v"
  using map_of_eq_None_iff_keys [of m k] by auto

lemma keys_of_tabulate [simp]: "keys_of (map (\<lambda>k. (k, f k)) ks) = ks"
  by (induction ks) simp_all

lemma map_of_tabulate: "map_of (map (\<lambda>k. (k, f k)) ks) k = (if k \<in> set ks then Some (f k) else None)"
  by (induction ks) auto

lemma strict_sort: "distinct ks \<Longrightarrow> sorted_wrt (<) (sort ks)"
  by (simp add: strict_sorted_iff)

text \<open>A list in ascending key order is determined by its lookups.\<close>

lemma sorted_map_eqI:
  fixes m n :: "('k::linorder \<times> 'v) list"
  assumes "sorted_wrt (<) (keys_of m)" "sorted_wrt (<) (keys_of n)" "map_of m = map_of n"
  shows "m = n"
proof -
  have d: "distinct (map fst m)" "distinct (map fst n)"
    using assms(1,2) by (simp_all add: keys_of_def strict_sorted_iff)
  have "set m = set n"
    using assms(3) map_of_inject_set [OF d] by simp
  then have "keys_of m = keys_of n"
    using assms(1,2) by (intro strict_sorted_equal) (auto simp: keys_of_def)
  moreover have "map (\<lambda>k. (k, the (map_of l k))) (keys_of l) = l" if "distinct (map fst l)" for l :: "('k \<times> 'v) list"
  proof -
    have "map_of l (fst (l ! i)) = Some (snd (l ! i))" if "i < length l" for i
      using that \<open>distinct (map fst l)\<close> by (simp add: map_of_eq_Some_iff)
    then show ?thesis by (intro nth_equalityI) (simp_all add: keys_of_def)
  qed
  ultimately show ?thesis using d assms(3) by metis
qed

section \<open>The interface\<close>

locale object_map =
  fixes ins :: "'k::linorder \<Rightarrow> 'v \<Rightarrow> ('k \<times> 'v) list \<Rightarrow> ('k \<times> 'v) list"
  assumes ins_lookup: "map_of (ins k v m) = (map_of m)(k \<mapsto> v)"
    and ins_largest: "(\<And>k'. k' \<in> set (keys_of m) \<Longrightarrow> k' < k) \<Longrightarrow> ins k v m = m @ [(k, v)]"
    and ins_distinct: "distinct (keys_of (foldl (\<lambda>m (k, v). ins k v m) [] kvs))"
begin

text \<open>Inserting ascending keys writes the entries down in that order.\<close>

lemma insert_ascending:
  "sorted_wrt (<) ks \<Longrightarrow> (\<And>k k'. k \<in> set (keys_of m) \<Longrightarrow> k' \<in> set ks \<Longrightarrow> k < k') \<Longrightarrow>
   foldl (\<lambda>out k. ins k (f k) out) m ks = m @ map (\<lambda>k. (k, f k)) ks"
proof (induction ks arbitrary: m)
  case (Cons k ks)
  then have "ins k (f k) m = m @ [(k, f k)]" by (intro ins_largest) auto
  moreover have "foldl (\<lambda>out k. ins k (f k) out) (m @ [(k, f k)]) ks = (m @ [(k, f k)]) @ map (\<lambda>k. (k, f k)) ks"
    using Cons.prems by (intro Cons.IH) auto
  ultimately show ?case by simp
qed simp

lemma insert_sorted_keys:
  "distinct ks \<Longrightarrow> foldl (\<lambda>out k. ins k (f k) out) [] (sort ks) = map (\<lambda>k. (k, f k)) (sort ks)"
  using insert_ascending [of "sort ks" "[]"] by (simp add: strict_sort)

end

section \<open>The two maps\<close>

fun btree_insert :: "'k::linorder \<Rightarrow> 'v \<Rightarrow> ('k \<times> 'v) list \<Rightarrow> ('k \<times> 'v) list" where
  "btree_insert k v [] = [(k, v)]"
| "btree_insert k v ((k', v') # m) =
     (if k < k' then (k, v) # (k', v') # m
      else if k = k' then (k, v) # m
      else (k', v') # btree_insert k v m)"

fun index_insert :: "'k \<Rightarrow> 'v \<Rightarrow> ('k \<times> 'v) list \<Rightarrow> ('k \<times> 'v) list" where
  "index_insert k v [] = [(k, v)]"
| "index_insert k v ((k', v') # m) =
     (if k = k' then (k, v) # m else (k', v') # index_insert k v m)"

lemma btree_insert_lookup: "map_of (btree_insert k v m) = (map_of m)(k \<mapsto> v)"
  by (induction k v m rule: btree_insert.induct) (auto simp: fun_eq_iff)

lemma index_insert_lookup: "map_of (index_insert k v m) = (map_of m)(k \<mapsto> v)"
  by (induction k v m rule: index_insert.induct) (auto simp: fun_eq_iff)

lemma keys_btree_insert: "set (keys_of (btree_insert k v m)) = insert k (set (keys_of m))"
  by (induction k v m rule: btree_insert.induct) auto

lemma keys_index_insert: "set (keys_of (index_insert k v m)) = insert k (set (keys_of m))"
  by (induction k v m rule: index_insert.induct) auto

lemma distinct_index_insert: "distinct (keys_of m) \<Longrightarrow> distinct (keys_of (index_insert k v m))"
  by (induction k v m rule: index_insert.induct) (auto simp: keys_index_insert)

lemma btree_insert_sorted:
  "sorted_wrt (<) (keys_of m) \<Longrightarrow> sorted_wrt (<) (keys_of (btree_insert k v m))"
  by (induction k v m rule: btree_insert.induct) (auto simp: keys_btree_insert)

lemma distinct_build_btree: "distinct (keys_of (foldl (\<lambda>m (k, v). btree_insert k v m) [] kvs))"
proof -
  have "sorted_wrt (<) (keys_of (foldl (\<lambda>m (k, v). btree_insert k v m) m kvs))"
    if "sorted_wrt (<) (keys_of m)" for m
    using that by (induction kvs arbitrary: m) (auto simp: btree_insert_sorted)
  from this [of "[]"] show ?thesis by (simp add: strict_sorted_iff)
qed

lemma distinct_build_index: "distinct (keys_of (foldl (\<lambda>m (k, v). index_insert k v m) [] kvs))"
proof -
  have "distinct (keys_of (foldl (\<lambda>m (k, v). index_insert k v m) m kvs))"
    if "distinct (keys_of m)" for m
    using that by (induction kvs arbitrary: m) (auto simp: distinct_index_insert)
  from this [of "[]"] show ?thesis by simp
qed

interpretation btree: object_map btree_insert
proof
  fix m :: "('a::linorder \<times> 'b) list" and k v
  assume "\<And>k'. k' \<in> set (keys_of m) \<Longrightarrow> k' < k"
  then show "btree_insert k v m = m @ [(k, v)]"
    by (induction k v m rule: btree_insert.induct) fastforce+
qed (rule btree_insert_lookup distinct_build_btree)+

interpretation index: object_map index_insert
proof
  fix m :: "('a::linorder \<times> 'b) list" and k v
  assume "\<And>k'. k' \<in> set (keys_of m) \<Longrightarrow> k' < k"
  then show "index_insert k v m = m @ [(k, v)]"
    by (induction k v m rule: index_insert.induct) fastforce+
qed (rule index_insert_lookup distinct_build_index)+

end
