(* ===== verification/Canonical_Json.thy ===== *)
theory Canonical_Json
  imports Ordered_Map
begin

text \<open>
  JSON values and the canonical form that is signed and hashed: \<open>sort_keys\<close> and \<open>canonical_json\<close> of
  \<open>services/pzdr-enclave/src/policy.rs\<close> and their copies in \<open>main.rs\<close>. \<open>serde_json\<close> is a parameter:
  \<open>ins\<close> is the insertion of its map (either backend of \<open>Ordered_Map\<close>), \<open>to_vec\<close> its compact writer.
\<close>

datatype jnumber = PosInt u64 | NegInt i64 | Float u64

datatype json =
    JNull
  | JBool bool
  | JNumber jnumber
  | JString string
  | JArray "json list"
  | JObject "(string \<times> json) list"

type_synonym json_insert = "string \<Rightarrow> json \<Rightarrow> (string \<times> json) list \<Rightarrow> (string \<times> json) list"

lemma size_lookup: "map_of m k = Some v \<Longrightarrow> size v < Suc (size_list (size_prod (\<lambda>_. 0) size) m)"
  by (induction m) (auto split: if_splits)

lemma size_lookup_key:
  assumes "(z, v) \<in> set m"
  shows "size (the (map_of m z)) \<le> size_list (size_prod (\<lambda>_. 0) size) m"
proof -
  obtain w where "map_of m z = Some w" using assms map_of_eq_None_iff [of m z] by force
  with size_lookup [of m z w] show ?thesis by simp
qed

function sort_keys :: "json_insert \<Rightarrow> json \<Rightarrow> json" where
  "sort_keys ins (JObject m) =
     JObject (foldl (\<lambda>out k. ins k (sort_keys ins (the (map_of m k))) out) [] (sort (map fst m)))"
| "sort_keys ins (JArray a) = JArray (map (sort_keys ins) a)"
| "sort_keys ins JNull = JNull"
| "sort_keys ins (JBool b) = JBool b"
| "sort_keys ins (JNumber n) = JNumber n"
| "sort_keys ins (JString s) = JString s"
  by pat_completeness auto
termination
  by (relation "measure (\<lambda>(ins, v). size v)")
    (auto intro: size_lookup_key simp: size_list_estimation' less_Suc_eq_le)

definition canonical_json :: "json_insert \<Rightarrow> (json \<Rightarrow> bytes option) \<Rightarrow> json \<Rightarrow> bytes" where
  "canonical_json ins to_vec v = (case to_vec (sort_keys ins v) of None \<Rightarrow> [] | Some b \<Rightarrow> b)"

text \<open>The gateway keeps its own copy of the key sorting; \<open>sort_keys_copies\<close> says that the two agree, so that
  what is proved of one holds of the bytes the gateway signs.\<close>

function gateway_sort_keys :: "json_insert \<Rightarrow> json \<Rightarrow> json" where
  "gateway_sort_keys ins (JObject m) =
     (let sorted = [];
          keys = sort (map fst m)
      in JObject (foldl (\<lambda>sorted k. ins k (gateway_sort_keys ins (the (map_of m k))) sorted) sorted keys))"
| "gateway_sort_keys ins (JArray a) = JArray (map (gateway_sort_keys ins) a)"
| "gateway_sort_keys ins JNull = JNull"
| "gateway_sort_keys ins (JBool b) = JBool b"
| "gateway_sort_keys ins (JNumber n) = JNumber n"
| "gateway_sort_keys ins (JString s) = JString s"
  by pat_completeness auto
termination
  by (relation "measure (\<lambda>(ins, v). size v)")
    (auto intro: size_lookup_key simp: size_list_estimation' less_Suc_eq_le)

lemma sort_keys_copies [simp]: "gateway_sort_keys ins v = sort_keys ins v"
  by (induction ins v rule: sort_keys.induct) (auto simp: Let_def intro!: foldl_cong)

section \<open>Well-formed values and equality of documents\<close>

fun wf_json :: "json \<Rightarrow> bool" where
  "wf_json (JObject m) \<longleftrightarrow> distinct (map fst m) \<and> (\<forall>p \<in> set m. wf_json (snd p))"
| "wf_json (JArray a) \<longleftrightarrow> (\<forall>v \<in> set a. wf_json v)"
| "wf_json _ \<longleftrightarrow> True"

fun keys_ascend :: "json \<Rightarrow> bool" where
  "keys_ascend (JObject m) \<longleftrightarrow> sorted_wrt (<) (map fst m) \<and> (\<forall>p \<in> set m. keys_ascend (snd p))"
| "keys_ascend (JArray a) \<longleftrightarrow> (\<forall>v \<in> set a. keys_ascend v)"
| "keys_ascend _ \<longleftrightarrow> True"

inductive json_eq :: "json \<Rightarrow> json \<Rightarrow> bool" where
  null: "json_eq JNull JNull"
| bool: "json_eq (JBool b) (JBool b)"
| number: "json_eq (JNumber n) (JNumber n)"
| string: "json_eq (JString s) (JString s)"
| array: "list_all2 json_eq a b \<Longrightarrow> json_eq (JArray a) (JArray b)"
| object: "set (map fst m) = set (map fst n) \<Longrightarrow>
    (\<And>k u v. map_of m k = Some u \<Longrightarrow> map_of n k = Some v \<Longrightarrow> json_eq u v) \<Longrightarrow>
    json_eq (JObject m) (JObject n)"

inductive_simps json_eq_simps [simp]:
  "json_eq JNull w" "json_eq (JBool b) w" "json_eq (JNumber n) w" "json_eq (JString s) w"
  "json_eq (JArray a) w" "json_eq (JObject m) w"

lemma wf_json_lookup: "wf_json (JObject m) \<Longrightarrow> map_of m k = Some v \<Longrightarrow> wf_json v"
  by (auto dest!: map_of_SomeD)

locale json_map = object_map ins for ins :: json_insert
begin

lemma sort_keys_object:
  "distinct (map fst m) \<Longrightarrow>
   sort_keys ins (JObject m) =
     JObject (map (\<lambda>k. (k, sort_keys ins (the (map_of m k)))) (sort (map fst m)))"
  using insert_sorted_keys [of "map fst m"] by simp

lemma lookup_sort_keys:
  assumes "distinct (map fst m)"
  obtains m' where "sort_keys ins (JObject m) = JObject m'" "map fst m' = sort (map fst m)"
    "map_of m' = map_option (sort_keys ins) \<circ> map_of m"
proof
  let ?m = "map (\<lambda>k. (k, sort_keys ins (the (map_of m k)))) (sort (map fst m))"
  show "sort_keys ins (JObject m) = JObject ?m" by (rule sort_keys_object [OF assms])
  show "map fst ?m = sort (map fst m)" by (simp add: comp_def)
  show "map_of ?m = map_option (sort_keys ins) \<circ> map_of m"
  proof
    fix k
    show "map_of ?m k = (map_option (sort_keys ins) \<circ> map_of m) k"
      using map_of_eq_None_iff [of m k] by (cases "map_of m k") (auto simp: map_of_tabulate)
  qed
qed

lemma keys_ascend_sort_keys: "wf_json v \<Longrightarrow> keys_ascend (sort_keys ins v)"
proof (induction v)
  case (JObject m)
  then have d: "distinct (map fst m)" by simp
  have "keys_ascend (sort_keys ins (the (map_of m k)))" if k: "k \<in> fst ` set m" for k
  proof -
    from k obtain v where "map_of m k = Some v" using map_of_eq_None_iff [of m k] by auto
    with JObject show ?thesis by (auto dest!: map_of_SomeD)
  qed
  then show ?case by (simp add: sort_keys_object [OF d] comp_def strict_sort d del: sort_keys.simps)
qed auto

lemma sort_keys_eq_iff:
  "wf_json v \<Longrightarrow> wf_json w \<Longrightarrow> sort_keys ins v = sort_keys ins w \<longleftrightarrow> json_eq v w"
proof (induction v arbitrary: w)
  case (JArray a)
  show ?case
  proof (cases w)
    case (JArray b)
    have "map (sort_keys ins) a = map (sort_keys ins) b \<longleftrightarrow> list_all2 (\<lambda>x y. sort_keys ins x = sort_keys ins y) a b"
      by (auto simp: list_all2_conv_all_nth list_eq_iff_nth_eq)
    also have "\<dots> \<longleftrightarrow> list_all2 json_eq a b"
      using JArray.IH JArray.prems \<open>w = JArray b\<close> by (intro list.rel_cong) simp_all
    finally show ?thesis using \<open>w = JArray b\<close> by simp
  next
    case (JObject n)
    with JArray.prems show ?thesis by (simp add: sort_keys_object del: sort_keys.simps(1))
  qed auto
next
  case (JObject m)
  then have d: "distinct (map fst m)" by simp
  show ?case
  proof (cases w)
    case w: (JObject n)
    with JObject.prems have dn: "distinct (map fst n)" by simp
    have ih: "sort_keys ins u = sort_keys ins v \<longleftrightarrow> json_eq u v"
      if "map_of m k = Some u" "map_of n k = Some v" for k u v
    proof -
      have "wf_json u" "wf_json v" "(k, u) \<in> set m"
        using that wf_json_lookup [of m k u] wf_json_lookup [of n k v] JObject.prems w
        by (auto dest: map_of_SomeD)
      with JObject.IH [of "(k, u)" u v] show ?thesis by simp
    qed
    show ?thesis
    proof
      assume eq: "sort_keys ins (JObject m) = sort_keys ins w"
      obtain m' where m': "sort_keys ins (JObject m) = JObject m'" "map fst m' = sort (map fst m)"
        "map_of m' = map_option (sort_keys ins) \<circ> map_of m" using lookup_sort_keys [OF d] .
      obtain n' where n': "sort_keys ins (JObject n) = JObject n'" "map fst n' = sort (map fst n)"
        "map_of n' = map_option (sort_keys ins) \<circ> map_of n" using lookup_sort_keys [OF dn] .
      from eq w m' n' have "m' = n'" by simp
      with m'(2) n'(2) have "set (map fst m) = set (map fst n)" by (metis set_sort)
      moreover have "json_eq u v" if "map_of m k = Some u" "map_of n k = Some v" for k u v
        using ih [OF that] that m'(3) n'(3) \<open>m' = n'\<close> by (auto dest: fun_cong [of _ _ k])
      ultimately show "json_eq (JObject m) w" unfolding w by (rule json_eq.object)
    next
      assume "json_eq (JObject m) w"
      with w have eq: "set (map fst m) = set (map fst n)"
        "\<And>k u v. map_of m k = Some u \<Longrightarrow> map_of n k = Some v \<Longrightarrow> json_eq u v" by auto
      have "sort (map fst m) = sort (map fst n)"
        using eq(1) d dn by (intro sorted_distinct_set_unique) auto
      moreover have "sort_keys ins (the (map_of m k)) = sort_keys ins (the (map_of n k))"
        if "k \<in> set (map fst n)" for k
        using that eq ih map_of_eq_None_iff [of m k] map_of_eq_None_iff [of n k] by auto
      ultimately show "sort_keys ins (JObject m) = sort_keys ins w"
        unfolding w sort_keys_object [OF d] sort_keys_object [OF dn] by simp
    qed
  qed (simp_all add: sort_keys_object [OF d] del: sort_keys.simps(1))
qed (case_tac w; auto simp: sort_keys_object simp del: sort_keys.simps(1))+

end

interpretation json_btree: json_map btree_insert ..

interpretation json_index: json_map index_insert ..

lemma sort_keys_backends: "wf_json v \<Longrightarrow> sort_keys index_insert v = sort_keys btree_insert v"
proof (induction v)
  case (JObject m)
  then have d: "distinct (map fst m)" by simp
  have "sort_keys index_insert (the (map_of m k)) = sort_keys btree_insert (the (map_of m k))"
    if k: "k \<in> set (sort (map fst m))" for k
  proof -
    from k obtain v where "map_of m k = Some v" using map_of_eq_None_iff [of m k] by auto
    with JObject show ?thesis by (auto dest!: map_of_SomeD)
  qed
  then show ?case
    unfolding json_index.sort_keys_object [OF d] json_btree.sort_keys_object [OF d] by simp
qed auto

section \<open>Values the program builds and reads\<close>

text \<open>The \<open>json!\<close> macro and the derived serializers insert the fields of an object in order; \<open>get\<close>,
  \<open>as_str\<close> and \<open>as_u64\<close> are the accessors of \<open>serde_json::Value\<close>.\<close>

definition json_object :: "json_insert \<Rightarrow> (string \<times> json) list \<Rightarrow> json" where
  "json_object ins fields = JObject (foldl (\<lambda>m (k, v). ins k v m) [] fields)"

definition json_u64 :: "u64 \<Rightarrow> json" where
  "json_u64 n = JNumber (PosInt n)"

definition json_usize :: "nat \<Rightarrow> json" where
  "json_usize n = JNumber (PosInt (word_of_nat n))"

definition json_opt :: "('a \<Rightarrow> json) \<Rightarrow> 'a option \<Rightarrow> json" where
  "json_opt f x = (case x of None \<Rightarrow> JNull | Some y \<Rightarrow> f y)"

fun json_get :: "json \<Rightarrow> string \<Rightarrow> json option" where
  "json_get (JObject m) k = map_of m k"
| "json_get _ k = None"

fun as_str :: "json \<Rightarrow> string option" where
  "as_str (JString s) = Some s"
| "as_str _ = None"

fun as_u64 :: "json \<Rightarrow> u64 option" where
  "as_u64 (JNumber (PosInt n)) = Some n"
| "as_u64 _ = None"

lemma map_of_foldl_insert:
  assumes "object_map ins"
  shows "map_of (foldl (\<lambda>m (k, v). ins k v m) m fields) = map_of m ++ map_of (rev fields)"
proof -
  have lookup: "\<And>k v n. map_of (ins k v n) = (map_of n)(k \<mapsto> v)"
    using object_map.ins_lookup [OF assms] .
  show ?thesis
    by (induction fields arbitrary: m) (auto simp: lookup map_add_def fun_eq_iff split: option.splits)
qed

lemma map_of_json_object:
  assumes "object_map ins"
  obtains m where "json_object ins kvs = JObject m" "distinct (map fst m)" "map_of m = map_of (rev kvs)"
  using map_of_foldl_insert [OF assms, of "[]" kvs] object_map.ins_distinct [OF assms, of kvs] that
  by (simp add: json_object_def keys_of_def)

lemma wf_json_object:
  assumes "object_map ins" and "\<And>k v. (k, v) \<in> set kvs \<Longrightarrow> wf_json v"
  shows "wf_json (json_object ins kvs)"
proof -
  obtain m where m: "json_object ins kvs = JObject m" "distinct (map fst m)" "map_of m = map_of (rev kvs)"
    using map_of_json_object [OF assms(1)] .
  have "(k, v) \<in> set kvs" if "(k, v) \<in> set m" for k v
    using that m(2,3) map_of_SomeD [of "rev kvs" k v] by (simp flip: m(3))
  then have "wf_json v" if "(k, v) \<in> set m" for k v
    using that by (blast intro: assms(2))
  with m(1,2) show ?thesis by auto
qed

lemma json_get_object: "object_map ins \<Longrightarrow> json_get (json_object ins kvs) k = map_of (rev kvs) k"
  by (simp add: json_object_def map_of_foldl_insert)

lemma json_eq_get: "json_eq v w \<Longrightarrow> json_get v k = Some a \<Longrightarrow> json_get w k = Some b \<Longrightarrow> json_eq a b"
  by (cases v; cases w) auto

lemma json_eq_strings: "json_eq (JArray (map JString a)) (JArray (map JString b)) \<longleftrightarrow> a = b"
proof -
  have "(\<lambda>x y. json_eq (JString x) (JString y)) = (=)" by (auto simp: fun_eq_iff)
  then show ?thesis by (simp add: list_all2_map1 list_all2_map2 list.rel_eq del: json_eq_simps(4))
qed

end
