(* ===== verification/Strings_Rust.thy ===== *)
theory Strings_Rust
  imports PZDR_Prelude "HOL-Library.Sublist"
begin

text \<open>
  The string operations of the standard library the programs use: decimal formatting and
  \<open>parse::<usize>\<close> (an optional \<open>+\<close>, at least one digit, an error on overflow),
  \<open>trim_start_matches\<close> with a string pattern (which strips every repetition of the prefix) and the
  big-endian bytes of fixed-width integers, with their round trips.
\<close>

section \<open>Decimal numbers\<close>

definition digit_char :: "nat \<Rightarrow> char" where
  "digit_char n = char_of (48 + n)"

fun show_nat :: "nat \<Rightarrow> string" where
  "show_nat n = (if n < 10 then [digit_char n] else show_nat (n div 10) @ [digit_char (n mod 10)])"

declare show_nat.simps [simp del]

definition digit_value :: "char \<Rightarrow> nat option" where
  "digit_value c = (let n = of_char c in if 48 \<le> n \<and> n \<le> (57 :: nat) then Some (n - 48) else None)"

fun parse_digits :: "nat \<Rightarrow> string \<Rightarrow> nat option" where
  "parse_digits acc [] = Some acc"
| "parse_digits acc (c # s) =
     (case digit_value c of
        None \<Rightarrow> None
      | Some d \<Rightarrow> if acc * 10 + d < 2 ^ 64 then parse_digits (acc * 10 + d) s else None)"

definition parse_usize :: "string \<Rightarrow> nat option" where
  "parse_usize s =
     (case s of
        [] \<Rightarrow> None
      | c # r \<Rightarrow> if c = CHR ''+'' then (if r = [] then None else parse_digits 0 r) else parse_digits 0 s)"

lemma digit_value_char: "n < 10 \<Longrightarrow> digit_value (digit_char n) = Some n"
  by (simp add: digit_value_def digit_char_def of_char_of)

lemma parse_digits_append:
  "parse_digits acc (s @ t) = Option.bind (parse_digits acc s) (\<lambda>a. parse_digits a t)"
  by (induction acc s rule: parse_digits.induct) (auto split: option.splits)

lemma parse_digits_show: "parse_digits 0 (show_nat n) = (if n < 2 ^ 64 then Some n else None)"
proof (induction n rule: show_nat.induct)
  case (1 n)
  show ?case
  proof (cases "n < 10")
    case True
    then show ?thesis by (subst show_nat.simps) (simp add: digit_value_char)
  next
    case False
    have "n div 10 * 10 + n mod 10 = n" by (rule div_mult_mod_eq)
    moreover have "n < 2 ^ 64 \<Longrightarrow> n div 10 < 2 ^ 64" by (rule le_less_trans [OF div_le_dividend])
    ultimately show ?thesis using False 1
      by (subst show_nat.simps) (simp add: parse_digits_append digit_value_char del: power_numeral)
  qed
qed

lemma show_nat_first: "\<exists>d r. show_nat n = digit_char d # r \<and> d < 10"
proof (induction n rule: show_nat.induct)
  case (1 n)
  then show ?case
    by (subst show_nat.simps) (metis append_Cons)
qed

lemma parse_usize_show: "parse_usize (show_nat n) = (if n < 2 ^ 64 then Some n else None)"
proof -
  obtain d r where "show_nat n = digit_char d # r" "d < 10" using show_nat_first by blast
  moreover from \<open>d < 10\<close> have "digit_char d \<noteq> CHR ''+''"
    using digit_value_char [of d] by (auto simp: digit_value_def)
  ultimately show ?thesis using parse_digits_show [of n] by (simp add: parse_usize_def)
qed

lemma parse_digits_bound: "parse_digits acc s = Some n \<Longrightarrow> acc < 2 ^ 64 \<Longrightarrow> n < 2 ^ 64"
  by (induction acc s rule: parse_digits.induct) (auto split: option.splits if_splits)

lemma parse_usize_bound: "parse_usize s = Some n \<Longrightarrow> n < 2 ^ 64"
  by (auto simp: parse_usize_def split: list.splits if_splits dest!: parse_digits_bound [of 0]
      simp del: parse_digits.simps)

lemma inj_show_nat: "show_nat m = show_nat n \<Longrightarrow> m < 2 ^ 64 \<Longrightarrow> n < 2 ^ 64 \<Longrightarrow> m = n"
  using parse_usize_show by (metis option.inject)

section \<open>Prefixes\<close>

function trim_start_matches :: "string \<Rightarrow> string \<Rightarrow> string" where
  "trim_start_matches p s =
     (if p \<noteq> [] \<and> prefix p s then trim_start_matches p (drop (length p) s) else s)"
  by pat_completeness auto
termination by (relation "measure (\<lambda>(p, s). length s)") (auto simp: prefix_def)

declare trim_start_matches.simps [simp del]

lemma trim_start_prefix: "p \<noteq> [] \<Longrightarrow> trim_start_matches p (p @ s) = trim_start_matches p s"
  by (subst trim_start_matches.simps) simp

lemma trim_start_other: "\<not> prefix p s \<Longrightarrow> trim_start_matches p s = s"
  by (subst trim_start_matches.simps) simp

section \<open>Big-endian integers\<close>

definition u32_to_be :: "u32 \<Rightarrow> bytes" where
  "u32_to_be w = map (\<lambda>i. ucast (drop_bit (8 * (3 - i)) w)) [0 ..< 4]"

definition u32_from_be :: "bytes \<Rightarrow> u32" where
  "u32_from_be b = foldl (\<lambda>acc x. push_bit 8 acc OR ucast x) 0 b"

definition u64_to_be :: "u64 \<Rightarrow> bytes" where
  "u64_to_be w = map (\<lambda>i. ucast (drop_bit (8 * (7 - i)) w)) [0 ..< 8]"

definition u64_from_be :: "bytes \<Rightarrow> u64" where
  "u64_from_be b = foldl (\<lambda>acc x. push_bit 8 acc OR ucast x) 0 b"

lemma length_be [simp]: "length (u32_to_be w) = 4" "length (u64_to_be v) = 8"
  by (simp_all add: u32_to_be_def u64_to_be_def)

lemma u32_from_to_be [simp]: "u32_from_be (u32_to_be w) = w"
proof (rule bit_word_eqI)
  fix n assume "n < LENGTH(32)"
  then have "n < 32" by simp
  then consider "n < 8" | "8 \<le> n \<and> n < 16" | "16 \<le> n \<and> n < 24" | "24 \<le> n \<and> n < 32" by linarith
  then show "bit (u32_from_be (u32_to_be w)) n \<longleftrightarrow> bit w n"
    by cases (auto simp: u32_from_be_def u32_to_be_def upt_rec bit_simps)
qed

lemma u64_from_to_be [simp]: "u64_from_be (u64_to_be w) = w"
proof (rule bit_word_eqI)
  fix n assume "n < LENGTH(64)"
  then have "n div 8 < 8" by simp
  moreover define m where "m = n mod 8"
  moreover have "n = 8 * (n div 8) + m" "m < 8" by (simp_all add: m_def)
  ultimately obtain k where k: "n = 8 * k + m" "k < 8" "m < 8" by blast
  then have "k \<in> {0, 1, 2, 3, 4, 5, 6, 7}" by auto
  with k(1,3) show "bit (u64_from_be (u64_to_be w)) n \<longleftrightarrow> bit w n"
    by (elim insertE emptyE) (simp_all add: u64_from_be_def u64_to_be_def upt_rec bit_simps)
qed

lemma u64_to_be_inject: "u64_to_be v = u64_to_be w \<longleftrightarrow> v = w"
  using u64_from_to_be by metis

section \<open>UTF-8 and lines\<close>

text \<open>The byte sequences \<open>std::str::from_utf8\<close> accepts.\<close>

definition in_range :: "byte \<Rightarrow> byte \<Rightarrow> byte \<Rightarrow> bool" where
  "in_range lo hi b \<longleftrightarrow> lo \<le> b \<and> b \<le> hi"

definition utf8_second :: "byte \<Rightarrow> byte \<Rightarrow> bool" where
  "utf8_second b c =
     (if b = 0xE0 then in_range 0xA0 0xBF c
      else if b = 0xED then in_range 0x80 0x9F c
      else if b = 0xF0 then in_range 0x90 0xBF c
      else if b = 0xF4 then in_range 0x80 0x8F c
      else in_range 0x80 0xBF c)"

definition utf8_width :: "byte \<Rightarrow> nat" where
  "utf8_width b =
     (if b < 0x80 then 1
      else if in_range 0xC2 0xDF b then 2
      else if in_range 0xE0 0xEF b then 3
      else if in_range 0xF0 0xF4 b then 4
      else 0)"

function utf8_valid :: "bytes \<Rightarrow> bool" where
  "utf8_valid [] = True"
| "utf8_valid (b # r) =
     (let w = utf8_width b; tail = take (w - 1) r in
      w \<noteq> 0 \<and> length tail = w - 1 \<and>
      (1 < w \<longrightarrow> utf8_second b (hd tail) \<and> list_all (in_range 0x80 0xBF) (tl tail)) \<and>
      utf8_valid (drop (w - 1) r))"
  by pat_completeness auto
termination by (relation "measure length") auto

text \<open>\<open>str::lines\<close> and \<open>BufRead::lines\<close>: the pieces that end in a line feed, which is dropped with a
  carriage return before it, and a last piece without one, which is kept as it is.\<close>

fun split_inclusive :: "string \<Rightarrow> string list" where
  "split_inclusive [] = []"
| "split_inclusive (c # s) =
     (if c = CHR 0x0A then [c] # split_inclusive s
      else (case split_inclusive s of [] \<Rightarrow> [[c]] | l # ls \<Rightarrow> (c # l) # ls))"

definition chomp :: "string \<Rightarrow> string" where
  "chomp l =
     (if l \<noteq> [] \<and> last l = CHR 0x0A then
        (let m = butlast l in if m \<noteq> [] \<and> last m = CHR 0x0D then butlast m else m)
      else l)"

definition str_lines :: "string \<Rightarrow> string list" where
  "str_lines s = map chomp (split_inclusive s)"

lemma split_inclusive_line:
  "CHR 0x0A \<notin> set l \<Longrightarrow> split_inclusive (l @ CHR 0x0A # s) = (l @ [CHR 0x0A]) # split_inclusive s"
  by (induction l) auto

lemma str_lines_line:
  "CHR 0x0A \<notin> set l \<Longrightarrow> CHR 0x0D \<notin> set l \<Longrightarrow> str_lines (l @ CHR 0x0A # s) = l # str_lines s"
  by (cases "l = []") (auto simp: str_lines_def split_inclusive_line chomp_def Let_def dest: last_in_set)

lemma str_lines_Nil [simp]: "str_lines [] = []"
  by (simp add: str_lines_def)

section \<open>White space\<close>

text \<open>The length of the white-space character at the front of a UTF-8 string, 0 when there is none
  (\<open>char::is_whitespace\<close>: the Unicode property \<open>White_Space\<close>).\<close>

definition white_width :: "string \<Rightarrow> nat" where
  "white_width s =
     (let at = (\<lambda>i. if i < length s then of_char (s ! i) else (0 :: nat)) in
      if s = [] then 0
      else if at 0 \<in> {0x09, 0x0A, 0x0B, 0x0C, 0x0D, 0x20} then 1
      else if at 0 = 0xC2 \<and> at 1 \<in> {0x85, 0xA0} then 2
      else if at 0 = 0xE1 \<and> at 1 = 0x9A \<and> at 2 = 0x80 then 3
      else if at 0 = 0xE2 \<and> at 1 = 0x80 \<and> (0x80 \<le> at 2 \<and> at 2 \<le> 0x8A \<or> at 2 \<in> {0xA8, 0xA9, 0xAF}) then 3
      else if at 0 = 0xE2 \<and> at 1 = 0x81 \<and> at 2 = 0x9F then 3
      else if at 0 = 0xE3 \<and> at 1 = 0x80 \<and> at 2 = 0x80 then 3
      else 0)"

function trim_start :: "string \<Rightarrow> string" where
  "trim_start s = (if white_width s = 0 then s else trim_start (drop (white_width s) s))"
  by pat_completeness auto
termination
proof (relation "measure length")
  fix s :: string
  assume "white_width s \<noteq> 0"
  then show "(drop (white_width s) s, s) \<in> measure length"
    by (cases s) (auto simp: white_width_def)
qed simp

declare trim_start.simps [simp del]

text \<open>\<open>trim().is_empty()\<close>: a string whose first character after leading white space exists keeps it.\<close>

definition trim_is_empty :: "string \<Rightarrow> bool" where
  "trim_is_empty s \<longleftrightarrow> trim_start s = []"

lemma trim_is_empty_Nil [simp]: "trim_is_empty []"
  by (simp add: trim_is_empty_def trim_start.simps [of "[]"] white_width_def)

lemma trim_is_empty_blank: "list_all (\<lambda>c. c \<in> set '' '') s \<Longrightarrow> trim_is_empty s"
proof (induction s)
  case (Cons c s)
  then have "white_width (c # s) = 1" by (simp add: white_width_def)
  then have "trim_start (c # s) = trim_start s" by (subst trim_start.simps) simp
  with Cons show ?case by (simp add: trim_is_empty_def)
qed simp

lemma trim_is_empty_visible: "white_width s = 0 \<Longrightarrow> s \<noteq> [] \<Longrightarrow> \<not> trim_is_empty s"
  by (simp add: trim_is_empty_def trim_start.simps [of s])

lemma white_width_ascii: "0x21 \<le> (of_char c :: nat) \<Longrightarrow> of_char c < (0x80 :: nat) \<Longrightarrow> white_width (c # s) = 0"
  by (simp add: white_width_def)

end
