(* ===== verification/Nsm.thy ===== *)
theory Nsm
  imports Strings_Rust
begin

text \<open>
  The enclave's side of the Nitro Security Module, module \<open>enclave\<close> of
  \<open>crates/nitro-attestation/src/lib.rs\<close>, and the error type of that crate. The device is a function
  from the number of the call and the request to the response; it belongs to the hypervisor and
  nothing is assumed about it.
\<close>

datatype nitro_error =
    Cbor string
  | Cose string
  | CertChain string
  | Signature
  | PcrMismatch string string
  | Expired i64 i64
  | NsmError string
  | Missing string

datatype nsm_request =
    AttestationRequest (request_user_data: "bytes option") (request_nonce: "bytes option")
      (request_public_key: "bytes option")
  | GetRandom

text \<open>An error code is the text its \<open>Debug\<close> form prints.\<close>

datatype nsm_response =
    AttestationDocument bytes
  | RandomBytes bytes
  | ErrorCode string
  | OtherResponse

type_synonym nsm_device = "nat \<Rightarrow> nsm_request \<Rightarrow> nsm_response"

definition show_int :: "int \<Rightarrow> string" where
  "show_int i = (if i < 0 then ''-'' @ show_nat (nat (- i)) else show_nat (nat i))"

definition nsm_new :: "int \<Rightarrow> nitro_error + int" where
  "nsm_new fd = (if fd < 0 then Inl (NsmError (''nsm_init failed: '' @ show_int fd)) else Inr fd)"

definition generate_attestation ::
  "nsm_device \<Rightarrow> nat \<Rightarrow> bytes option \<Rightarrow> bytes option \<Rightarrow> bytes option \<Rightarrow> nitro_error + bytes"
where
  "generate_attestation dev k user_data nonce public_key =
     (case dev k (AttestationRequest user_data nonce public_key) of
        AttestationDocument document \<Rightarrow> Inr document
      | ErrorCode e \<Rightarrow> Inl (NsmError e)
      | _ \<Rightarrow> Inl (NsmError ''unexpected NSM response''))"

text \<open>The loop of \<open>random_bytes\<close>; the second component counts the device calls made.\<close>

partial_function (option) random_loop ::
  "nsm_device \<Rightarrow> nat \<Rightarrow> nat \<Rightarrow> bytes \<Rightarrow> ((nitro_error + bytes) \<times> nat) option"
where
  "random_loop dev k n out =
     (if length out < n then
        (case dev k GetRandom of
           RandomBytes random \<Rightarrow>
             (let need = n - length out in
              random_loop dev (Suc k) n (out @ take (min need (length random)) random))
         | ErrorCode e \<Rightarrow> Some (Inl (NsmError e), Suc k)
         | _ \<Rightarrow> Some (Inl (NsmError ''unexpected response''), Suc k))
      else Some (Inr out, k))"

definition random_bytes :: "nsm_device \<Rightarrow> nat \<Rightarrow> nat \<Rightarrow> ((nitro_error + bytes) \<times> nat) option" where
  "random_bytes dev k n = random_loop dev k n []"

text \<open>Whatever comes back has exactly the length asked for.\<close>

definition fills :: "nsm_device \<Rightarrow> nat \<Rightarrow> nat \<Rightarrow> bytes \<Rightarrow> (nitro_error + bytes) \<times> nat \<Rightarrow> bool" where
  "fills dev k n out r \<longleftrightarrow> (\<forall>b. fst r = Inr b \<longrightarrow> length out \<le> n \<longrightarrow> length b = n)"

lemma random_loop_fills: "random_loop dev k n out = Some r \<Longrightarrow> fills dev k n out r"
proof (rule random_loop.raw_induct [of fills], goal_cases)
  case (1 f dev k n out r)
  show ?case
  proof (cases "length out < n")
    case True
    show ?thesis
    proof (cases "dev k GetRandom")
      case (RandomBytes random)
      let ?out = "out @ take (min (n - length out) (length random)) random"
      from 1(3) True RandomBytes have "f dev (Suc k) n ?out = Some r" by (simp add: Let_def)
      from 1(2) [OF this] True show ?thesis by (simp add: fills_def)
    qed (use 1(3) True in \<open>auto simp: fills_def\<close>)
  qed (use 1(3) in \<open>auto simp: fills_def\<close>)
qed

lemma random_loop_length: "random_loop dev k n out = Some (Inr b, k') \<Longrightarrow> length out \<le> n \<Longrightarrow> length b = n"
  using random_loop_fills by (fastforce simp: fills_def)

text \<open>The loop ends when the device never answers with an empty string.\<close>

definition lively :: "nsm_device \<Rightarrow> bool" where
  "lively dev \<longleftrightarrow> (\<forall>k. dev k GetRandom \<noteq> RandomBytes [])"

lemma random_loop_returns:
  "lively dev \<Longrightarrow> \<exists>r k'. random_loop dev k n out = Some (r, k') \<and> k' \<le> k + (n - length out)"
proof (induction "n - length out" arbitrary: k out rule: less_induct)
  case less
  show ?case
  proof (cases "length out < n")
    case True
    show ?thesis
    proof (cases "dev k GetRandom")
      case (RandomBytes random)
      let ?out = "out @ take (min (n - length out) (length random)) random"
      from RandomBytes less.prems have "0 < length random" by (auto simp: lively_def)
      with True have "length out < length ?out" by simp
      with True have d: "n - length ?out < n - length out" by (rule diff_less_mono2 [rotated])
      from less.hyps [OF d less.prems, of "Suc k"] d
      show ?thesis using True RandomBytes by (subst random_loop.simps) (auto simp: Let_def)
    qed (use True in \<open>subst random_loop.simps, simp\<close>)+
  qed (subst random_loop.simps, simp)
qed

lemma random_bytes_length: "random_bytes dev k n = Some (Inr b, k') \<Longrightarrow> length b = n"
  using random_loop_length [of dev k n "[]"] by (simp add: random_bytes_def)

lemma random_bytes_returns: "lively dev \<Longrightarrow> \<exists>r k'. random_bytes dev k n = Some (r, k') \<and> k' \<le> k + n"
  using random_loop_returns [of dev k n "[]"] by (simp add: random_bytes_def)

end
