(* ===== verification/Externals.thy ===== *)
theory Externals
  imports Canonical_Json Nsm
begin

text \<open>
  The messages on the wire and the code outside the repository. The record \<open>externals\<close> collects the
  functions of the crates the enclave calls (\<open>sha2\<close>, \<open>hex\<close>, \<open>base64\<close>, \<open>serde_json\<close>, \<open>x25519-dalek\<close>,
  \<open>hkdf\<close>, \<open>chacha20poly1305\<close>, \<open>ed25519-dalek\<close>), the \<open>Debug\<close> texts of errors and the measurement compiled into the binary; every
  definition that calls one of them takes the record as an argument and nothing is assumed about it.
  What a theorem relies on is a named hypothesis of that theorem.
\<close>

section \<open>Messages\<close>

record vsock_envelope =
  env_method :: string
  env_path :: string
  env_headers :: "(string \<times> json) list"
  env_body_b64 :: string

record vsock_response =
  resp_status :: u16
  resp_headers :: "(string \<times> json) list"
  resp_body_b64 :: string

record inference_request =
  client_pub_hex :: string
  ciphertext_hex :: string
  nonce_hex :: string
  req_commitment_hex :: string
  commitment_salt_hex :: string
  commitment_context :: string
  req_processor_id :: "string option"

section \<open>The crates\<close>

record externals =
  sha256 :: "bytes \<Rightarrow> bytes"
  hex_encode :: "bytes \<Rightarrow> string"
  hex_decode :: "string \<Rightarrow> bytes option"
  b64_encode :: "bytes \<Rightarrow> string"
  b64_decode :: "string \<Rightarrow> bytes option"
  map_insert :: json_insert
  json_to_vec :: "json \<Rightarrow> bytes option"
  json_error :: string
  parse_envelope :: "bytes \<Rightarrow> vsock_envelope option"
  parse_response :: "bytes \<Rightarrow> vsock_response option"
  parse_request :: "bytes \<Rightarrow> inference_request option"
  x25519_public :: "bytes \<Rightarrow> bytes"
  x25519_dh :: "bytes \<Rightarrow> bytes \<Rightarrow> bytes"
  hkdf_expand :: "bytes \<Rightarrow> bytes \<Rightarrow> bytes \<Rightarrow> nat \<Rightarrow> bytes option"
  aead_key_ok :: "bytes \<Rightarrow> bool"
  aead_decrypt :: "bytes \<Rightarrow> bytes \<Rightarrow> bytes \<Rightarrow> bytes \<Rightarrow> bytes option"
  ed25519_public :: "bytes \<Rightarrow> bytes"
  ed25519_sign :: "bytes \<Rightarrow> bytes \<Rightarrow> bytes"
  expected_pcr0 :: string
  nitro_debug :: "nitro_error \<Rightarrow> string"
  anyhow_debug :: "string \<Rightarrow> string"

text \<open>The object builder and the canonical bytes with the record's writer.\<close>

definition obj :: "externals \<Rightarrow> (string \<times> json) list \<Rightarrow> json" where
  "obj ext kvs = json_object (map_insert ext) kvs"

lemma json_get_obj:
  "object_map (map_insert ext) \<Longrightarrow> json_get (obj ext kvs) k = map_of (rev kvs) k"
  by (simp add: obj_def json_get_object)

lemma wf_obj:
  "object_map (map_insert ext) \<Longrightarrow> (\<And>k v. (k, v) \<in> set kvs \<Longrightarrow> wf_json v) \<Longrightarrow> wf_json (obj ext kvs)"
  by (simp add: obj_def wf_json_object)

section \<open>A concrete instance\<close>

text \<open>Simple total functions in place of the crates, to evaluate the definitions on concrete inputs. The
  digest is a tag of 32 bytes, text encodings copy the bytes, and the writer writes an empty object.\<close>

definition demo_ext :: externals where
  "demo_ext =
     \<lparr>sha256 = (\<lambda>x. replicate 32 (case x of [] \<Rightarrow> 0 | b # _ \<Rightarrow> b)),
      hex_encode = copy_text, hex_decode = (\<lambda>s. Some (as_bytes s)),
      b64_encode = copy_text, b64_decode = (\<lambda>s. Some (as_bytes s)),
      map_insert = btree_insert, json_to_vec = (\<lambda>v. Some [0x7B, 0x7D]), json_error = ''json'',
      parse_envelope = (\<lambda>_. None), parse_response = (\<lambda>_. None), parse_request = (\<lambda>_. None),
      x25519_public = (\<lambda>k. k), x25519_dh = (\<lambda>k p. k), hkdf_expand = (\<lambda>salt ikm info n. Some (take n ikm)),
      aead_key_ok = (\<lambda>k. length k = 32), aead_decrypt = (\<lambda>k n c a. Some c),
      ed25519_public = (\<lambda>k. k), ed25519_sign = (\<lambda>k m. m), expected_pcr0 = ''00'',
      nitro_debug = (\<lambda>_. ''NitroError''), anyhow_debug = (\<lambda>e. e)\<rparr>"

lemma demo_ext_simps [simp]:
  "sha256 demo_ext x = replicate 32 (case x of [] \<Rightarrow> 0 | b # _ \<Rightarrow> b)"
  "hex_encode demo_ext = copy_text" "map_insert demo_ext = btree_insert"
  "object_map (btree_insert :: json_insert)"
  by (simp_all add: demo_ext_def btree.object_map_axioms)

end
