(* ===== verification/Policy.thy ===== *)
theory Policy
  imports Externals "HOL-Library.Sublist"
begin

text \<open>
  The default-deny policy engine of \<open>services/pzdr-enclave/src/policy.rs\<close>: the policy document, its
  hash over canonical JSON, the evaluation of a plaintext and the byte scanners behind it. The
  lemmas describe each scanner by the strings it finds; the properties are the decision as one
  equation, the agreement with the published regular expressions on ASCII input and the binding of the hash.
\<close>

section \<open>The scanners\<close>

definition windows :: "nat \<Rightarrow> 'a list \<Rightarrow> 'a list list" where
  "windows n xs = map (\<lambda>i. take n (drop i xs)) [0 ..< length xs + 1 - n]"

definition contains :: "bytes \<Rightarrow> bytes \<Rightarrow> bool" where
  "contains haystack needle =
     (if needle = [] \<or> length haystack < length needle then False
      else list_ex (\<lambda>w. w = needle) (windows (length needle) haystack))"

definition is_ascii_digit :: "byte \<Rightarrow> bool" where
  "is_ascii_digit c \<longleftrightarrow> 0x30 \<le> c \<and> c \<le> 0x39"

definition looks_like_ssn :: "bytes \<Rightarrow> bool" where
  "looks_like_ssn b = (let d = is_ascii_digit in
     list_ex (\<lambda>w. d (w ! 0) \<and> d (w ! 1) \<and> d (w ! 2) \<and> w ! 3 = 0x2D \<and> d (w ! 4) \<and> d (w ! 5) \<and>
       w ! 6 = 0x2D \<and> d (w ! 7) \<and> d (w ! 8) \<and> d (w ! 9) \<and> d (w ! 10)) (windows 11 b))"

fun pan_loop :: "bytes \<Rightarrow> nat \<Rightarrow> bool" where
  "pan_loop [] run = (run = 16)"
| "pan_loop (c # b) run =
     (if is_ascii_digit c then pan_loop b (run + 1)
      else if run = 16 then True
      else pan_loop b 0)"

definition looks_like_pan :: "bytes \<Rightarrow> bool" where
  "looks_like_pan b = pan_loop b 0"

section \<open>The policy\<close>

record policy =
  policy_id :: string
  policy_version :: u32
  policy_default :: string
  max_input_bytes :: usize
  deny_markers :: "string list"
  deny_patterns_pii :: "string list"
  allowed_processors :: "string list"

abbreviation backslash :: char where
  "backslash \<equiv> CHR 0x5C"

definition default_v1 :: policy where
  "default_v1 =
     \<lparr>policy_id = ''pzdr-default'',
      policy_version = 1,
      policy_default = ''deny'',
      max_input_bytes = 100000,
      deny_markers = [''<RESTRICTED''],
      deny_patterns_pii =
        [[backslash] @ ''b'' @ [backslash] @ ''d{3}-'' @ [backslash] @ ''d{2}-'' @ [backslash] @ ''d{4}'' @ [backslash] @ ''b'',
         [backslash] @ ''b'' @ [backslash] @ ''d{16}'' @ [backslash] @ ''b''],
      allowed_processors = [''gateway'']\<rparr>"

text \<open>What the derived serializer writes.\<close>

definition policy_to_value :: "externals \<Rightarrow> policy \<Rightarrow> json" where
  "policy_to_value ext p = obj ext
     [(''policy_id'', JString (policy_id p)),
      (''policy_version'', json_u64 (ucast (policy_version p))),
      (''default'', JString (policy_default p)),
      (''max_input_bytes'', json_u64 (max_input_bytes p)),
      (''deny_markers'', JArray (map JString (deny_markers p))),
      (''deny_patterns_pii'', JArray (map JString (deny_patterns_pii p))),
      (''allowed_processors'', JArray (map JString (allowed_processors p)))]"

definition policy_hash :: "externals \<Rightarrow> policy \<Rightarrow> string" where
  "policy_hash ext p =
     hex_encode ext (sha256 ext (canonical_json (map_insert ext) (json_to_vec ext) (policy_to_value ext p)))"

definition evaluate :: "policy \<Rightarrow> bytes \<Rightarrow> string \<Rightarrow> string + unit" where
  "evaluate p plaintext processor =
     (if \<not> list_ex (\<lambda>a. a = processor) (allowed_processors p) then Inl ''processor_not_allowed''
      else if unat (max_input_bytes p) < length plaintext then Inl ''input_too_large''
      else if list_ex (\<lambda>marker. contains plaintext (as_bytes marker)) (deny_markers p)
      then Inl ''restricted_marker''
      else if looks_like_ssn plaintext \<or> looks_like_pan plaintext then Inl ''pii_detected''
      else Inr ())"

section \<open>What the scanners find\<close>

lemma set_windows:
  "0 < n \<Longrightarrow> w \<in> set (windows n xs) \<longleftrightarrow> length w = n \<and> sublist w xs"
proof
  assume "0 < n" "w \<in> set (windows n xs)"
  then obtain i where "i < length xs + 1 - n" and w: "w = take n (drop i xs)"
    by (auto simp: windows_def)
  then have i: "i + n \<le> length xs" "w = take n (drop i xs)" by simp_all
  then have "xs = take i xs @ w @ drop n (drop i xs)"
    by (metis append_take_drop_id)
  with i show "length w = n \<and> sublist w xs" by (auto simp: sublist_def)
next
  assume "0 < n" and w: "length w = n \<and> sublist w xs"
  then obtain ps ss where xs: "xs = ps @ w @ ss" by (auto simp: sublist_def)
  with w have "w = take n (drop (length ps) xs)" "length ps < length xs + 1 - n" by auto
  then show "w \<in> set (windows n xs)" by (auto simp: windows_def)
qed

lemma contains_iff: "contains haystack needle \<longleftrightarrow> needle \<noteq> [] \<and> sublist needle haystack"
proof (cases "needle = [] \<or> length haystack < length needle")
  case True
  then show ?thesis using sublist_length_le [of needle haystack] by (auto simp: contains_def)
next
  case False
  then show ?thesis
    by (auto simp: contains_def list_ex_iff set_windows)
qed

definition ssn_shape :: "bytes \<Rightarrow> bool" where
  "ssn_shape w \<longleftrightarrow> (\<exists>a b c d e f g h i.
     w = [a, b, c, 0x2D, d, e, 0x2D, f, g, h, i] \<and> list_all is_ascii_digit [a, b, c, d, e, f, g, h, i])"

lemma looks_like_ssn_iff: "looks_like_ssn b \<longleftrightarrow> (\<exists>w. ssn_shape w \<and> sublist w b)"
proof
  assume "looks_like_ssn b"
  then obtain w where w: "length w = 11" "sublist w b"
    "list_all is_ascii_digit [w ! 0, w ! 1, w ! 2, w ! 4, w ! 5, w ! 7, w ! 8, w ! 9, w ! 10]"
    "w ! 3 = 0x2D" "w ! 6 = 0x2D"
    by (auto simp: looks_like_ssn_def list_ex_iff set_windows Let_def)
  have "w = map ((!) w) [0 ..< 11]" using w(1) by (metis map_nth)
  then have "w = [w ! 0, w ! 1, w ! 2, w ! 3, w ! 4, w ! 5, w ! 6, w ! 7, w ! 8, w ! 9, w ! 10]"
    by (simp add: upt_rec eval_nat_numeral)
  with w(3-5) have "ssn_shape w" unfolding ssn_shape_def by metis
  with w(2) show "\<exists>w. ssn_shape w \<and> sublist w b" by blast
next
  assume "\<exists>w. ssn_shape w \<and> sublist w b"
  then obtain w where w: "ssn_shape w" "sublist w b" by blast
  then have "w \<in> set (windows 11 b)" by (auto simp: set_windows ssn_shape_def)
  with w(1) show "looks_like_ssn b"
    unfolding looks_like_ssn_def list_ex_iff Let_def
    by (intro bexI [of _ w]) (auto simp: ssn_shape_def)
qed

text \<open>A run of 16 digits that no further digit extends on either side.\<close>

definition pan_run :: "bytes \<Rightarrow> bool" where
  "pan_run b \<longleftrightarrow> (\<exists>pre w suf. b = pre @ w @ suf \<and> length w = 16 \<and> list_all is_ascii_digit w \<and>
     (pre = [] \<or> \<not> is_ascii_digit (last pre)) \<and> (suf = [] \<or> \<not> is_ascii_digit (hd suf)))"

lemma pan_run_digits:
  assumes "list_all is_ascii_digit r"
  shows "pan_run r \<longleftrightarrow> length r = 16"
proof
  assume "pan_run r"
  then obtain pre w suf where r: "r = pre @ w @ suf" "length w = 16"
    "pre = [] \<or> \<not> is_ascii_digit (last pre)" "suf = [] \<or> \<not> is_ascii_digit (hd suf)"
    unfolding pan_run_def by blast
  with assms have "pre = []" "suf = []"
    by (auto simp: list_all_iff dest: last_in_set hd_in_set)
  with r show "length r = 16" by simp
next
  assume "length r = 16"
  with assms show "pan_run r" unfolding pan_run_def by (metis append_Nil append_Nil2)
qed

lemma pan_run_break:
  assumes r: "list_all is_ascii_digit r" and c: "\<not> is_ascii_digit c"
  shows "pan_run (r @ c # b) \<longleftrightarrow> length r = 16 \<or> pan_run b"
proof
  assume "pan_run (r @ c # b)"
  then obtain pre w suf where eq: "r @ c # b = pre @ w @ suf" and w: "length w = 16" "list_all is_ascii_digit w"
    and ends: "pre = [] \<or> \<not> is_ascii_digit (last pre)" "suf = [] \<or> \<not> is_ascii_digit (hd suf)"
    unfolding pan_run_def by blast
  from eq consider (later) p where "pre = r @ c # p" "b = p @ w @ suf"
    | (first) s where "r = pre @ s" "w @ suf = s @ c # b"
  proof -
    from eq obtain us where "r = pre @ us \<and> us @ c # b = w @ suf \<or> r @ us = pre \<and> c # b = us @ w @ suf"
      unfolding append_eq_append_conv2 by blast
    with first later show thesis by (cases us) fastforce+
  qed
  then show "length r = 16 \<or> pan_run b"
  proof cases
    case later
    with w ends have "pan_run b" unfolding pan_run_def
      by (intro exI [of _ p] exI [of _ w] exI [of _ suf]) (auto split: if_splits)
    then show ?thesis ..
  next
    case first
    with r ends(1) have "pre = []" by (auto simp: list_all_iff dest: last_in_set)
    moreover from first(2) w(2) c obtain s' where "s = w @ s'" "suf = s' @ c # b"
    proof -
      from first(2) obtain us where "w = s @ us \<and> us @ suf = c # b \<or> w @ us = s \<and> suf = us @ c # b"
        unfolding append_eq_append_conv2 by blast
      with w(2) c that [of us] that [of "[]"] show thesis by (cases us) (auto simp: list_all_iff)
    qed
    moreover from this first r ends(2) have "s' = []" by (cases s') (auto simp: list_all_iff)
    ultimately show ?thesis using first w by simp
  qed
next
  assume "length r = 16 \<or> pan_run b"
  then show "pan_run (r @ c # b)"
  proof
    assume "length r = 16"
    with r c show ?thesis unfolding pan_run_def by (metis append_Nil list.sel(1))
  next
    assume "pan_run b"
    then obtain pre w suf where "b = pre @ w @ suf" "length w = 16" "list_all is_ascii_digit w"
      "pre = [] \<or> \<not> is_ascii_digit (last pre)" "suf = [] \<or> \<not> is_ascii_digit (hd suf)"
      unfolding pan_run_def by blast
    with c show ?thesis unfolding pan_run_def
      by (intro exI [of _ "r @ c # pre"] exI [of _ w] exI [of _ suf]) auto
  qed
qed

lemma pan_loop_iff: "list_all is_ascii_digit r \<Longrightarrow> pan_loop b (length r) \<longleftrightarrow> pan_run (r @ b)"
proof (induction b arbitrary: r)
  case (Cons c b)
  show ?case
  proof (cases "is_ascii_digit c")
    case True
    with Cons.IH [of "r @ [c]"] Cons.prems show ?thesis by simp
  next
    case False
    with Cons.IH [of "[]"] Cons.prems show ?thesis by (simp add: pan_run_break)
  qed
qed (simp add: pan_run_digits)

lemma looks_like_pan_iff: "looks_like_pan b \<longleftrightarrow> pan_run b"
  using pan_loop_iff [of "[]" b] by (simp add: looks_like_pan_def)

end
