(* ===== verification/Policy_Props.thy ===== *)
theory Policy_Props
  imports Policy Strings_Rust
begin

text \<open>
  The properties of the policy engine and of the canonical form it hashes: the decision as one
  equation over what the input contains, canonical JSON as a normal form, and the binding of
  \<open>policy_hash\<close>. \<open>Policy_Reference\<close> compares the decision with the repository's reference.
\<close>

section \<open>Properties of the engine\<close>

text \<open>C10. The decision of the policy engine, for every policy, input and processor: a processor that
  is not on the list is refused first, then an input longer than the limit, then an input that contains
  a non-empty deny marker, then an input that contains the shape of a social security number or a run
  of exactly 16 digits; everything else is allowed.\<close>

theorem evaluate_decision:
  "evaluate p plaintext processor =
     (if processor \<notin> set (allowed_processors p) then Inl ''processor_not_allowed''
      else if unat (max_input_bytes p) < length plaintext then Inl ''input_too_large''
      else if \<exists>marker. marker \<in> set (deny_markers p) \<and> marker \<noteq> [] \<and> sublist (as_bytes marker) plaintext
      then Inl ''restricted_marker''
      else if (\<exists>w. ssn_shape w \<and> sublist w plaintext) \<or> pan_run plaintext then Inl ''pii_detected''
      else Inr ())"
proof -
  have "as_bytes marker = [] \<longleftrightarrow> marker = []" for marker by (simp add: as_bytes_def)
  then have "list_ex (\<lambda>marker. contains plaintext (as_bytes marker)) (deny_markers p) \<longleftrightarrow>
    (\<exists>marker. marker \<in> set (deny_markers p) \<and> marker \<noteq> [] \<and> sublist (as_bytes marker) plaintext)"
    by (auto simp: list_ex_iff contains_iff)
  then show ?thesis
    by (auto simp: evaluate_def list_ex_iff looks_like_ssn_iff looks_like_pan_iff)
qed

section \<open>Canonical JSON\<close>

text \<open>C12. Canonical JSON is a normal form: with a writer whose output can be read back, two well-formed
  values have the same canonical bytes exactly when they are the same document, equal up to the order of
  the fields of every object, whichever of the two maps backs \<open>serde_json\<close> objects.\<close>

theorem canonical_json_normal_form:
  assumes "ins = btree_insert \<or> ins = index_insert" and "wf_json v" and "wf_json w"
    and "to_vec (sort_keys ins v) = Some b" and "from_slice b = Some (sort_keys ins v)"
    and "to_vec (sort_keys ins w) = Some c" and "from_slice c = Some (sort_keys ins w)"
  shows "canonical_json ins to_vec v = canonical_json ins to_vec w \<longleftrightarrow> json_eq v w"
proof -
  have "canonical_json ins to_vec v = canonical_json ins to_vec w \<longleftrightarrow> sort_keys ins v = sort_keys ins w"
    using assms(4-7) by (auto simp: canonical_json_def)
  then show ?thesis
    using assms(1-3) json_btree.sort_keys_eq_iff [of v w] json_index.sort_keys_eq_iff [of v w] by auto
qed

theorem canonical_json_normal_form_witness:
  "canonical_json index_insert (\<lambda>v. Some [0x7B, 0x7D]) (JObject [(''b'', JNull), (''a'', JBool True)]) =
   canonical_json index_insert (\<lambda>v. Some [0x7B, 0x7D]) (JObject [(''a'', JBool True), (''b'', JNull)])
   \<longleftrightarrow> json_eq (JObject [(''b'', JNull), (''a'', JBool True)]) (JObject [(''a'', JBool True), (''b'', JNull)])"
  by (rule canonical_json_normal_form
      [where from_slice = "\<lambda>_. Some (JObject [(''a'', JBool True), (''b'', JNull)])"])
    (simp_all add: insort_key_def)

text \<open>The canonical bytes of a well-formed value do not depend on the map that backs \<open>serde_json\<close>
  objects, so the enclave and every other writer of sorted JSON hash the same string, and in them the
  keys of every object ascend.\<close>

lemma canonical_json_backends:
  assumes "wf_json v"
  shows "canonical_json index_insert to_vec v = canonical_json btree_insert to_vec v \<and>
    keys_ascend (sort_keys btree_insert v)"
  using assms json_btree.keys_ascend_sort_keys [of v]
  by (simp add: canonical_json_def sort_keys_backends)

section \<open>The policy hash\<close>

lemma wf_policy_to_value: "object_map (map_insert ext) \<Longrightarrow> wf_json (policy_to_value ext p)"
  unfolding policy_to_value_def by (rule wf_obj) (auto simp: json_u64_def)

lemma policy_to_value_inject:
  assumes o: "object_map (map_insert ext)" and eq: "json_eq (policy_to_value ext p) (policy_to_value ext q)"
  shows "p = q"
proof -
  note get = json_get_obj [OF o]
  have field: "json_eq (the (json_get (policy_to_value ext p) k)) (the (json_get (policy_to_value ext q) k))"
    if "json_get (policy_to_value ext p) k \<noteq> None" "json_get (policy_to_value ext q) k \<noteq> None" for k
    using json_eq_get [OF eq] that by auto
  have "policy_id p = policy_id q"
    using field [of "''policy_id''"] by (simp add: policy_to_value_def get)
  moreover have "policy_version p = policy_version q"
    using field [of "''policy_version''"] by (simp add: policy_to_value_def get json_u64_def)
  moreover have "policy_default p = policy_default q"
    using field [of "''default''"] by (simp add: policy_to_value_def get)
  moreover have "max_input_bytes p = max_input_bytes q"
    using field [of "''max_input_bytes''"] by (simp add: policy_to_value_def get json_u64_def)
  moreover have "deny_markers p = deny_markers q"
    using field [of "''deny_markers''"] by (simp add: policy_to_value_def get json_eq_strings del: json_eq_simps)
  moreover have "deny_patterns_pii p = deny_patterns_pii q"
    using field [of "''deny_patterns_pii''"] by (simp add: policy_to_value_def get json_eq_strings del: json_eq_simps)
  moreover have "allowed_processors p = allowed_processors q"
    using field [of "''allowed_processors''"] by (simp add: policy_to_value_def get json_eq_strings del: json_eq_simps)
  ultimately show "p = q" by simp
qed

definition policy_document :: "externals \<Rightarrow> policy \<Rightarrow> bytes" where
  "policy_document ext p = canonical_json (map_insert ext) (json_to_vec ext) (policy_to_value ext p)"

text \<open>C13. The policy hash pins the ruleset: two policies have the same \<open>policy_hash\<close> exactly when they are
  the same policy, field by field, as long as the hexadecimal encoding is injective, the JSON writer's
  output for the two documents can be read back, and SHA-256 does not collide on the two documents.\<close>

theorem policy_hash_binds:
  assumes o: "object_map (map_insert ext)"
    and hex: "\<And>a b. hex_encode ext a = hex_encode ext b \<Longrightarrow> a = b"
    and sha: "sha256 ext (policy_document ext p) = sha256 ext (policy_document ext q) \<Longrightarrow>
      policy_document ext p = policy_document ext q"
    and read: "from_slice (policy_document ext p) = Some (sort_keys (map_insert ext) (policy_to_value ext p))"
      "from_slice (policy_document ext q) = Some (sort_keys (map_insert ext) (policy_to_value ext q))"
  shows "policy_hash ext p = policy_hash ext q \<longleftrightarrow> p = q"
proof
  assume "policy_hash ext p = policy_hash ext q"
  then have "policy_document ext p = policy_document ext q"
    using hex sha by (simp add: policy_hash_def policy_document_def)
  with read have "sort_keys (map_insert ext) (policy_to_value ext p) =
      sort_keys (map_insert ext) (policy_to_value ext q)" by simp
  moreover have "json_map (map_insert ext)" using o by (rule json_map.intro)
  ultimately have "json_eq (policy_to_value ext p) (policy_to_value ext q)"
    by (simp add: json_map.sort_keys_eq_iff wf_policy_to_value o)
  with o show "p = q" by (rule policy_to_value_inject)
qed simp

definition demo_writer :: "policy \<Rightarrow> json \<Rightarrow> bytes option" where
  "demo_writer p v = Some (if v = sort_keys btree_insert (policy_to_value demo_ext p) then [1] else [2])"

theorem policy_hash_binds_witness:
  "policy_hash (demo_ext\<lparr>json_to_vec := demo_writer default_v1\<rparr>) default_v1 =
   policy_hash (demo_ext\<lparr>json_to_vec := demo_writer default_v1\<rparr>) (default_v1\<lparr>max_input_bytes := 7\<rparr>)
   \<longleftrightarrow> default_v1 = default_v1\<lparr>max_input_bytes := 7\<rparr>"
proof (rule policy_hash_binds)
  let ?ext = "demo_ext\<lparr>json_to_vec := demo_writer default_v1\<rparr>"
  let ?doc = "\<lambda>p. sort_keys btree_insert (policy_to_value demo_ext p)"
  let ?read = "\<lambda>b. if b = [1 :: byte] then Some (?doc default_v1) else Some (?doc (default_v1\<lparr>max_input_bytes := 7\<rparr>))"
  have v: "policy_to_value ?ext p = policy_to_value demo_ext p" for p
    by (simp add: policy_to_value_def obj_def)
  have doc: "policy_document ?ext p = (if ?doc p = ?doc default_v1 then [1] else [2])" for p
    by (simp add: policy_document_def canonical_json_def demo_writer_def v)
  show "?read (policy_document ?ext default_v1) = Some (sort_keys (map_insert ?ext) (policy_to_value ?ext default_v1))"
    by (simp add: doc v)
  show "?read (policy_document ?ext (default_v1\<lparr>max_input_bytes := 7\<rparr>)) =
      Some (sort_keys (map_insert ?ext) (policy_to_value ?ext (default_v1\<lparr>max_input_bytes := 7\<rparr>)))"
    by (simp add: doc v)
  show "policy_document ?ext default_v1 = policy_document ?ext (default_v1\<lparr>max_input_bytes := 7\<rparr>)"
    if "sha256 ?ext (policy_document ?ext default_v1) = sha256 ?ext (policy_document ?ext (default_v1\<lparr>max_input_bytes := 7\<rparr>))"
    using that by (simp add: doc split: if_splits)
qed simp_all

end
