(* ===== verification/Policy_Reference.thy ===== *)
theory Policy_Reference
  imports Policy Strings_Rust
begin

text \<open>
  The repository's reference for the policy decision, \<open>evaluate_policy\<close> of \<open>tools/pzdr_ledger.py\<close>, beside the
  scanners of \<open>policy.rs\<close>. The reference decodes the input as UTF-8, leaving out what is not, and runs the
  published regular expressions on the text; the enclave scans the bytes for ASCII digits. On ASCII input
  the enclave denies whatever the reference denies, with the same reason; beyond ASCII it does not.
\<close>

section \<open>Text\<close>

text \<open>\<open>bytes.decode("utf-8", "ignore")\<close>: a byte that begins no well-formed sequence is left out. (Python leaves
  out the longest prefix of a well-formed sequence at once; what follows its first byte are continuation
  bytes, which begin no sequence, so leaving out one byte at a time gives the same text.)\<close>

definition code_point :: "byte \<Rightarrow> bytes \<Rightarrow> nat" where
  "code_point b tail =
     foldl (\<lambda>n c. 64 * n + unat c mod 64) (unat b mod (case length tail of 0 \<Rightarrow> 128 | Suc 0 \<Rightarrow> 32 | Suc (Suc 0) \<Rightarrow> 16 | _ \<Rightarrow> 8)) tail"

function decode_ignore :: "bytes \<Rightarrow> nat list" where
  "decode_ignore [] = []"
| "decode_ignore (b # r) =
     (let w = utf8_width b; tail = take (w - 1) r in
      if w \<noteq> 0 \<and> length tail = w - 1 \<and>
        (1 < w \<longrightarrow> utf8_second b (hd tail) \<and> list_all (in_range 0x80 0xBF) (tl tail))
      then code_point b tail # decode_ignore (drop (w - 1) r)
      else decode_ignore r)"
  by pat_completeness auto
termination by (relation "measure length") auto

lemma decode_ascii: "b < 0x80 \<Longrightarrow> decode_ignore (b # r) = unat b # decode_ignore r"
  by (simp add: utf8_width_def code_point_def Let_def unat_mod_distrib word_less_nat_alt)

definition ascii :: "bytes \<Rightarrow> bool" where
  "ascii b \<longleftrightarrow> list_all (\<lambda>c. c < 0x80) b"

lemma decode_ascii_append: "ascii b \<Longrightarrow> decode_ignore (b @ r) = map unat b @ decode_ignore r"
  by (induction b) (simp_all add: ascii_def decode_ascii del: decode_ignore.simps(2))

lemma decode_ascii_all: "ascii b \<Longrightarrow> decode_ignore b = map unat b"
  using decode_ascii_append [of b "[]"] by simp

section \<open>The published regular expressions\<close>

text \<open>The fragment of Python's \<open>re\<close> that the policy document uses: \<open>\b\<close>, \<open>\d{n}\<close> and literal characters. \<open>dg\<close> and \<open>wd\<close>
  are the code points \<open>\d\<close> and \<open>\w\<close> stand for; a match starts at a position with the text \<open>pre\<close> before it and \<open>suf\<close>
  after it.\<close>

datatype atom = Boundary | Digits nat | Literal char

definition boundary :: "(nat \<Rightarrow> bool) \<Rightarrow> nat list \<Rightarrow> nat list \<Rightarrow> bool" where
  "boundary wd pre suf \<longleftrightarrow> (pre \<noteq> [] \<and> wd (last pre)) \<noteq> (suf \<noteq> [] \<and> wd (hd suf))"

fun match_at :: "(nat \<Rightarrow> bool) \<Rightarrow> (nat \<Rightarrow> bool) \<Rightarrow> atom list \<Rightarrow> nat list \<Rightarrow> nat list \<Rightarrow> bool" where
  "match_at dg wd [] pre suf \<longleftrightarrow> True"
| "match_at dg wd (Boundary # r) pre suf \<longleftrightarrow> boundary wd pre suf \<and> match_at dg wd r pre suf"
| "match_at dg wd (Digits n # r) pre suf \<longleftrightarrow>
     n \<le> length suf \<and> list_all dg (take n suf) \<and> match_at dg wd r (pre @ take n suf) (drop n suf)"
| "match_at dg wd (Literal c # r) pre suf \<longleftrightarrow>
     suf \<noteq> [] \<and> hd suf = of_char c \<and> match_at dg wd r (pre @ [hd suf]) (tl suf)"

definition regex_search :: "(nat \<Rightarrow> bool) \<Rightarrow> (nat \<Rightarrow> bool) \<Rightarrow> atom list \<Rightarrow> nat list \<Rightarrow> bool" where
  "regex_search dg wd r t = list_ex (\<lambda>i. match_at dg wd r (take i t) (drop i t)) [0 ..< length t + 1]"

fun regex_text :: "atom list \<Rightarrow> string" where
  "regex_text [] = []"
| "regex_text (Boundary # r) = backslash # ''b'' @ regex_text r"
| "regex_text (Digits n # r) = backslash # ''d{'' @ show_nat n @ ''}'' @ regex_text r"
| "regex_text (Literal c # r) = c # regex_text r"

definition ssn_regex :: "atom list" where
  "ssn_regex = [Boundary, Digits 3, Literal (CHR ''-''), Digits 2, Literal (CHR ''-''), Digits 4, Boundary]"

definition pan_regex :: "atom list" where
  "pan_regex = [Boundary, Digits 16, Boundary]"

lemma published_patterns: "deny_patterns_pii default_v1 = [regex_text ssn_regex, regex_text pan_regex]"
  by (simp add: default_v1_def ssn_regex_def pan_regex_def show_nat.simps digit_char_def char_of_def
      bit_iff_odd)

text \<open>What the documentation of \<open>re\<close> says of \<open>re.search\<close> for the two published patterns: \<open>\d\<close> matches the decimal digits
  of Unicode, of which the ASCII ones are 0 to 9 and the Arabic-Indic ones U+0660 to U+0669, and \<open>\w\<close> matches
  all of these and more.\<close>

definition re_documented :: "(string \<Rightarrow> nat list \<Rightarrow> bool) \<Rightarrow> bool" where
  "re_documented re_search \<longleftrightarrow> (\<exists>dg wd.
     (\<forall>c < 0x80. dg c \<longleftrightarrow> 0x30 \<le> c \<and> c \<le> 0x39) \<and> (\<forall>c. 0x660 \<le> c \<and> c \<le> 0x669 \<longrightarrow> dg c) \<and> (\<forall>c. dg c \<longrightarrow> wd c) \<and>
     re_search (regex_text ssn_regex) = regex_search dg wd ssn_regex \<and>
     re_search (regex_text pan_regex) = regex_search dg wd pan_regex)"

section \<open>The reference\<close>

text \<open>\<open>evaluate_policy\<close>, with \<open>re.search\<close> as a parameter.\<close>

definition reference_policy :: "(string \<Rightarrow> nat list \<Rightarrow> bool) \<Rightarrow> policy \<Rightarrow> bytes \<Rightarrow> string \<Rightarrow> string + unit" where
  "reference_policy re_search p plaintext processor =
     (if processor \<notin> set (allowed_processors p) then Inl ''processor_not_allowed''
      else if unat (max_input_bytes p) < length plaintext then Inl ''input_too_large''
      else let text = decode_ignore plaintext in
        if list_ex (\<lambda>marker. sublist (decode_ignore (as_bytes marker)) text) (deny_markers p)
        then Inl ''restricted_marker''
        else if list_ex (\<lambda>pat. re_search pat text) (deny_patterns_pii p) then Inl ''pii_detected''
        else Inr ())"

section \<open>What a match means\<close>

lemma regex_search_iff: "regex_search dg wd r t \<longleftrightarrow> (\<exists>pre suf. t = pre @ suf \<and> match_at dg wd r pre suf)"
proof
  assume "regex_search dg wd r t"
  then obtain i where "match_at dg wd r (take i t) (drop i t)"
    unfolding regex_search_def list_ex_iff by blast
  then show "\<exists>pre suf. t = pre @ suf \<and> match_at dg wd r pre suf"
    by (intro exI [of _ "take i t"] exI [of _ "drop i t"]) simp
next
  assume "\<exists>pre suf. t = pre @ suf \<and> match_at dg wd r pre suf"
  then obtain pre suf where "t = pre @ suf" "match_at dg wd r pre suf" by blast
  then show "regex_search dg wd r t"
    unfolding regex_search_def list_ex_iff by (intro bexI [of _ "length pre"]) simp_all
qed

lemma match_digits:
  "match_at dg wd (Digits n # r) pre suf \<longleftrightarrow>
   (\<exists>w s. suf = w @ s \<and> length w = n \<and> list_all dg w \<and> match_at dg wd r (pre @ w) s)"
proof
  assume "match_at dg wd (Digits n # r) pre suf"
  then show "\<exists>w s. suf = w @ s \<and> length w = n \<and> list_all dg w \<and> match_at dg wd r (pre @ w) s"
    by (intro exI [of _ "take n suf"] exI [of _ "drop n suf"]) simp
qed auto

lemma match_literal:
  "match_at dg wd (Literal c # r) pre suf \<longleftrightarrow>
   (\<exists>s. suf = of_char c # s \<and> match_at dg wd r (pre @ [of_char c]) s)"
  by (cases suf) auto

lemmas match_simps = match_at.simps(1,2) match_digits match_literal

text \<open>On ASCII text the code points are the bytes.\<close>

definition ascii_dialect :: "(nat \<Rightarrow> bool) \<Rightarrow> (nat \<Rightarrow> bool) \<Rightarrow> bool" where
  "ascii_dialect dg wd \<longleftrightarrow> (\<forall>c < 0x80. dg c \<longleftrightarrow> 0x30 \<le> c \<and> c \<le> 0x39) \<and> (\<forall>c. dg c \<longrightarrow> wd c)"

lemma digit_unat: "ascii_dialect dg wd \<Longrightarrow> c < 0x80 \<Longrightarrow> dg (unat c) \<longleftrightarrow> is_ascii_digit c"
  by (simp add: ascii_dialect_def is_ascii_digit_def word_less_nat_alt word_le_nat_alt)

lemma digits_unat: "ascii_dialect dg wd \<Longrightarrow> ascii w \<Longrightarrow> list_all dg (map unat w) \<longleftrightarrow> list_all is_ascii_digit w"
  by (auto simp: list_all_iff ascii_def digit_unat)

lemma map_unat_split: "map unat (b :: bytes) = xs @ ys \<Longrightarrow> \<exists>u v. b = u @ v \<and> xs = map unat u \<and> ys = map unat v"
  by (metis map_eq_append_conv)

lemma ssn_regex_scanned:
  assumes "ascii_dialect dg wd" and "ascii b" and "regex_search dg wd ssn_regex (map unat b)"
  shows "looks_like_ssn b"
proof -
  obtain pre x y z s where t: "map unat b = pre @ x @ 0x2D # y @ 0x2D # z @ s"
    and len: "length x = 3" "length y = 2" "length z = 4" and dg: "list_all dg (x @ y @ z)"
    using assms(3) by (auto simp: regex_search_iff ssn_regex_def match_simps simp del: match_at.simps(3,4))
  obtain p u where 1: "b = p @ u" "map unat u = x @ 0x2D # y @ 0x2D # z @ s"
    using map_unat_split [OF t] by force
  obtain x' v where 2: "u = x' @ v" "x = map unat x'" "map unat v = 0x2D # y @ 0x2D # z @ s"
    using map_unat_split [OF 1(2)] by force
  obtain d v' where 3: "v = d # v'" "unat d = 0x2D" "map unat v' = y @ 0x2D # z @ s"
    using 2(3) by (auto simp: map_eq_Cons_conv)
  obtain y' w where 4: "v' = y' @ w" "y = map unat y'" "map unat w = 0x2D # z @ s"
    using map_unat_split [OF 3(3)] by force
  obtain e w' where 5: "w = e # w'" "unat e = 0x2D" "map unat w' = z @ s"
    using 4(3) by (auto simp: map_eq_Cons_conv)
  obtain z' s' where 6: "w' = z' @ s'" "z = map unat z'" using map_unat_split [OF 5(3)] by force
  have de: "d = 0x2D" "e = 0x2D" using 3(2) 5(2) by (simp_all add: word_unat_eq_iff)
  have b: "b = p @ (x' @ [0x2D] @ y' @ [0x2D] @ z') @ s'" using 1(1) 2(1) 3(1) 4(1) 5(1) 6(1) de by simp
  with assms(2) have "ascii (x' @ y' @ z')" by (auto simp: ascii_def)
  then have "list_all is_ascii_digit (x' @ y' @ z')"
    using digits_unat [OF assms(1), of "x' @ y' @ z'"] dg 2(2) 4(2) 6(2) by simp
  with len 2(2) 4(2) 6(2) have "ssn_shape (x' @ [0x2D] @ y' @ [0x2D] @ z')"
    by (auto simp: ssn_shape_def length_Suc_conv eval_nat_numeral)
  with b show ?thesis unfolding looks_like_ssn_iff sublist_def by blast
qed

lemma pan_regex_scanned:
  assumes "ascii_dialect dg wd" and "ascii b" and "regex_search dg wd pan_regex (map unat b)"
  shows "looks_like_pan b"
proof -
  obtain pre w s where t: "map unat b = pre @ w @ s" and w: "length w = 16" "list_all dg w"
    and left: "boundary wd pre (w @ s)" and right: "boundary wd (pre @ w) s"
    using assms(3) by (auto simp: regex_search_iff pan_regex_def match_simps simp del: match_at.simps(3,4))
  obtain p u where 1: "b = p @ u" "pre = map unat p" "map unat u = w @ s" using map_unat_split [OF t] by force
  obtain w' s' where 2: "u = w' @ s'" "w = map unat w'" "s = map unat s'" using map_unat_split [OF 1(3)] by force
  from assms(2) 1(1) 2(1) have asc: "ascii p" "ascii w'" "ascii s'" by (simp_all add: ascii_def)
  have dg: "list_all is_ascii_digit w'" using digits_unat [OF assms(1) asc(2)] w(2) 2(2) by simp
  have "w \<noteq> []" using w(1) by auto
  then have "dg (hd w)" "dg (last w)" using w(2) by (simp_all add: list_all_iff)
  then have word: "wd (hd w)" "wd (last w)" using assms(1) by (simp_all add: ascii_dialect_def)
  have "\<not> is_ascii_digit (last p)" if "p \<noteq> []"
  proof -
    have "last p < 0x80" using asc(1) that by (simp add: ascii_def list_all_iff)
    moreover have "\<not> wd (last pre)" using left word(1) that \<open>w \<noteq> []\<close> 1(2) by (auto simp: boundary_def)
    ultimately show ?thesis using assms(1) digit_unat [OF assms(1)] that 1(2)
      by (auto simp: ascii_dialect_def last_map)
  qed
  moreover have "\<not> is_ascii_digit (hd s')" if "s' \<noteq> []"
  proof -
    have "hd s' < 0x80" using asc(3) that by (simp add: ascii_def list_all_iff)
    moreover have "\<not> wd (hd s)" using right word(2) that \<open>w \<noteq> []\<close> 2(3) by (auto simp: boundary_def)
    ultimately show ?thesis using assms(1) digit_unat [OF assms(1)] that 2(3)
      by (auto simp: ascii_dialect_def hd_map)
  qed
  ultimately have "pan_run b"
    unfolding pan_run_def using 1(1) 2(1,2) dg w(1) by (intro exI [of _ p] exI [of _ w'] exI [of _ s']) auto
  then show ?thesis by (simp add: looks_like_pan_iff)
qed

section \<open>Properties\<close>

lemma deny_markers_default: "deny_markers default_v1 = [''<RESTRICTED'']"
  by (simp add: default_v1_def)

lemma marker_ascii: "ascii (as_bytes ''<RESTRICTED'')"
  by (simp add: ascii_def as_bytes_def)

lemma sublist_map_unat: "sublist (map unat u) (map unat v) \<longleftrightarrow> sublist u (v :: bytes)"
proof
  assume "sublist (map unat u) (map unat v)"
  then obtain ps ss where "map unat v = ps @ map unat u @ ss" by (auto simp: sublist_def)
  from map_unat_split [OF this] obtain p x where 1: "v = p @ x" "map unat x = map unat u @ ss" by force
  from map_unat_split [OF 1(2)] obtain u' w where 2: "x = u' @ w" "map unat u = map unat u'" by force
  from 2(2) have "u = u'" by (rule map_injective) (simp add: inj_on_def word_unat_eq_iff)
  with 1(1) 2(1) show "sublist u v" by (auto simp: sublist_def)
qed (rule map_mono_sublist)

text \<open>C11. The enclave agrees with the repository's reference on ASCII input: when \<open>evaluate_policy\<close>, which runs
  the published regular expressions over the decoded text, denies an ASCII input under the default policy,
  the enclave denies it with the same reason. (It may deny more: it checks no word boundary around a
  social security number.)\<close>

theorem published_patterns_enforced:
  assumes "re_documented re_search" and "ascii plaintext"
    and "reference_policy re_search default_v1 plaintext processor = Inl reason"
  shows "evaluate default_v1 plaintext processor = Inl reason"
proof -
  obtain dg wd where dialect: "ascii_dialect dg wd"
    and ssn: "re_search (regex_text ssn_regex) = regex_search dg wd ssn_regex"
    and pan: "re_search (regex_text pan_regex) = regex_search dg wd pan_regex"
    using assms(1) by (auto simp: re_documented_def ascii_dialect_def)
  have decoded: "decode_ignore plaintext = map unat plaintext" using assms(2) by (rule decode_ascii_all)
  have marker: "sublist (decode_ignore (as_bytes ''<RESTRICTED'')) (map unat plaintext) \<longleftrightarrow>
      contains plaintext (as_bytes ''<RESTRICTED'')"
    unfolding decode_ascii_all [OF marker_ascii] sublist_map_unat contains_iff by (simp add: as_bytes_def)
  have pii: "looks_like_ssn plaintext \<or> looks_like_pan plaintext"
    if "list_ex (\<lambda>pat. re_search pat (map unat plaintext)) (deny_patterns_pii default_v1)"
    using that ssn_regex_scanned [OF dialect assms(2)] pan_regex_scanned [OF dialect assms(2)]
    by (auto simp: published_patterns ssn pan)
  from assms(3) marker pii show ?thesis
    by (simp add: reference_policy_def evaluate_def decoded deny_markers_default Let_def list_ex_iff split: if_splits)
qed

text \<open>A dialect with the ASCII and the Arabic-Indic digits.\<close>

definition demo_digit :: "nat \<Rightarrow> bool" where
  "demo_digit c \<longleftrightarrow> 0x30 \<le> c \<and> c \<le> 0x39 \<or> 0x660 \<le> c \<and> c \<le> 0x669"

definition demo_word :: "nat \<Rightarrow> bool" where
  "demo_word c \<longleftrightarrow> demo_digit c \<or> 0x41 \<le> c \<and> c \<le> 0x5A \<or> 0x61 \<le> c \<and> c \<le> 0x7A \<or> c = 0x5F"

definition demo_search :: "string \<Rightarrow> nat list \<Rightarrow> bool" where
  "demo_search pat = regex_search demo_digit demo_word (if pat = regex_text ssn_regex then ssn_regex else pan_regex)"

lemma demo_search_documented: "re_documented demo_search"
proof -
  have "regex_text pan_regex \<noteq> regex_text ssn_regex"
    by (simp add: ssn_regex_def pan_regex_def show_nat.simps digit_char_def)
  then show ?thesis unfolding re_documented_def
    by (intro exI [of _ demo_digit] exI [of _ demo_word]) (auto simp: demo_search_def demo_digit_def demo_word_def)
qed

lemma demo_search_pan:
  assumes "t = pre @ w @ suf" and "length w = 16" and "list_all demo_digit w"
    and "pre = [] \<or> \<not> demo_word (last pre)" and "suf = [] \<or> \<not> demo_word (hd suf)"
  shows "demo_search (regex_text pan_regex) t"
proof -
  have ne: "w \<noteq> []" using assms(2) by auto
  with assms(3) have "demo_word (hd w)" "demo_word (last w)" by (simp_all add: list_all_iff demo_word_def)
  with assms(4,5) ne have "boundary demo_word pre (w @ suf)" "boundary demo_word (pre @ w) suf"
    by (auto simp: boundary_def)
  with assms(1-3) have "regex_search demo_digit demo_word pan_regex t"
    unfolding regex_search_iff pan_regex_def match_simps by blast
  moreover have "regex_text pan_regex \<noteq> regex_text ssn_regex"
    by (simp add: ssn_regex_def pan_regex_def show_nat.simps digit_char_def)
  ultimately show ?thesis by (simp add: demo_search_def)
qed

theorem published_patterns_enforced_witness:
  "evaluate default_v1 (as_bytes ''pan 4111111111111111'') ''gateway'' = Inl ''pii_detected''"
proof (rule published_patterns_enforced [OF demo_search_documented])
  let ?b = "as_bytes ''pan 4111111111111111''"
  show a: "ascii ?b" by (simp add: ascii_def as_bytes_def)
  have "demo_search (regex_text pan_regex) (map unat ?b)"
    by (rule demo_search_pan [of _ "map unat (as_bytes ''pan '')" "map unat (as_bytes ''4111111111111111'')" "[]"])
      (simp_all add: as_bytes_def demo_digit_def demo_word_def)
  moreover have "\<not> sublist (as_bytes ''<RESTRICTED'') ?b"
    by (auto simp: as_bytes_def sublist_def Cons_eq_append_conv)
  ultimately show "reference_policy demo_search default_v1 ?b ''gateway'' = Inl ''pii_detected''"
    by (simp add: reference_policy_def decode_ascii_all [OF a] decode_ascii_all [OF marker_ascii] sublist_map_unat
        deny_markers_default published_patterns Let_def) (simp add: default_v1_def as_bytes_def)
qed

lemma default_allows:
  assumes "length plaintext \<le> 100000" and "0x3C \<notin> set plaintext" and "0x2D \<notin> set plaintext" and "\<not> pan_run plaintext"
  shows "evaluate default_v1 plaintext ''gateway'' = Inr ()"
proof -
  have "\<not> contains plaintext (as_bytes ''<RESTRICTED'')"
  proof
    assume "contains plaintext (as_bytes ''<RESTRICTED'')"
    then have "set (as_bytes ''<RESTRICTED'') \<subseteq> set plaintext" by (auto simp: contains_iff dest: set_mono_sublist)
    with assms(2) show False by (simp add: as_bytes_def)
  qed
  moreover have "\<not> looks_like_ssn plaintext"
  proof
    assume "looks_like_ssn plaintext"
    then obtain w where "ssn_shape w" "set w \<subseteq> set plaintext" by (auto simp: looks_like_ssn_iff dest: set_mono_sublist)
    with assms(3) show False by (auto simp: ssn_shape_def)
  qed
  ultimately show ?thesis using assms(1,4)
    by (simp add: evaluate_def deny_markers_default looks_like_pan_iff) (simp add: default_v1_def)
qed

lemma reference_denies_digits:
  assumes "re_documented re_search" and "length plaintext \<le> 100000"
    and "length (decode_ignore plaintext) = 16"
    and "list_all (\<lambda>c. 0x30 \<le> c \<and> c \<le> 0x39 \<or> 0x660 \<le> c \<and> c \<le> 0x669) (decode_ignore plaintext)"
  shows "reference_policy re_search default_v1 plaintext ''gateway'' = Inl ''pii_detected''"
proof -
  let ?t = "decode_ignore plaintext"
  obtain dg wd where d: "\<forall>c < 0x80. dg c \<longleftrightarrow> 0x30 \<le> c \<and> c \<le> 0x39" "\<forall>c. 0x660 \<le> c \<and> c \<le> 0x669 \<longrightarrow> dg c"
    "\<forall>c. dg c \<longrightarrow> wd c" and pan: "re_search (regex_text pan_regex) = regex_search dg wd pan_regex"
    using assms(1) unfolding re_documented_def by blast
  have digit: "dg c" if "0x30 \<le> c \<and> c \<le> 0x39 \<or> 0x660 \<le> c \<and> c \<le> 0x669" for c
    using that d(1,2) by (elim disjE) simp_all
  have "?t \<noteq> []" using assms(3) by auto
  moreover have dg: "list_all dg ?t" using assms(4) digit by (simp add: list_all_iff)
  ultimately have "wd (hd ?t)" "wd (last ?t)" using d(3) by (simp_all add: list_all_iff)
  with \<open>?t \<noteq> []\<close> have "boundary wd [] ?t" "boundary wd ?t []" by (simp_all add: boundary_def)
  with dg assms(3) have "regex_search dg wd pan_regex ?t"
    unfolding regex_search_iff pan_regex_def match_simps
    by (intro exI [of _ "[]"] exI [of _ ?t] conjI) auto
  moreover have "\<not> sublist (decode_ignore (as_bytes ''<RESTRICTED'')) ?t"
  proof
    assume "sublist (decode_ignore (as_bytes ''<RESTRICTED'')) ?t"
    then have "set (map unat (as_bytes ''<RESTRICTED'')) \<subseteq> set ?t"
      unfolding decode_ascii_all [OF marker_ascii] by (rule set_mono_sublist)
    then have "0x3C \<in> set ?t" by (simp add: as_bytes_def)
    with assms(4) show False by (auto simp: list_all_iff)
  qed
  ultimately show ?thesis using assms(2)
    by (simp add: reference_policy_def deny_markers_default published_patterns pan Let_def) (simp add: default_v1_def)
qed

lemma decode_arabic:
  "list_all (\<lambda>d. 0xA0 \<le> d \<and> d \<le> 0xA9) ds \<Longrightarrow>
   decode_ignore (concat (map (\<lambda>d. [0xD9, d]) ds)) = map (\<lambda>d. 0x640 + unat d mod 64) ds"
proof (induction ds)
  case (Cons d ds)
  then have "0xA0 \<le> d" "d \<le> 0xA9" by simp_all
  then have "(0x80 :: byte) \<le> d" "d \<le> 0xBF" by (auto elim: order_trans [rotated] order_trans)
  then have "decode_ignore (0xD9 # d # r) = (0x640 + unat d mod 64) # decode_ignore r" for r
    by (simp add: utf8_width_def utf8_second_def in_range_def code_point_def)
  with Cons show ?case by (simp del: decode_ignore.simps(2))
qed simp

lemma arabic_range: "0xA0 \<le> d \<Longrightarrow> d \<le> (0xA9 :: byte) \<Longrightarrow> 0x660 \<le> 0x640 + unat d mod 64 \<and> 0x640 + unat d mod 64 \<le> 0x669"
proof -
  assume "0xA0 \<le> d" "d \<le> (0xA9 :: byte)"
  then have "160 \<le> unat d" "unat d \<le> 169" by (simp_all add: word_le_nat_alt)
  then have "unat d = (unat d - 128) + 64 * 2" "unat d - 128 < 64" by simp_all
  then have "unat d mod 64 = unat d - 128" by (metis mod_less mod_mult_self2)
  with \<open>160 \<le> unat d\<close> \<open>unat d \<le> 169\<close> show ?thesis by simp
qed

text \<open>C26. Beyond ASCII the enclave is laxer than the reference: sixteen Arabic-Indic digits, and sixteen ASCII digits
  broken anywhere by a byte that is not UTF-8, are denied by \<open>evaluate_policy\<close> under the published rules and
  allowed by the enclave.\<close>

theorem unicode_digits_pass:
  assumes "re_documented re_search" and "length ds = 16" and "list_all (\<lambda>d. 0xA0 \<le> d \<and> d \<le> 0xA9) ds"
    and "x \<noteq> []" and "y \<noteq> []" and "length x + length y = 16" and "list_all is_ascii_digit (x @ y)"
  shows "reference_policy re_search default_v1 (concat (map (\<lambda>d. [0xD9, d]) ds)) ''gateway'' = Inl ''pii_detected'' \<and>
    evaluate default_v1 (concat (map (\<lambda>d. [0xD9, d]) ds)) ''gateway'' = Inr () \<and>
    reference_policy re_search default_v1 (x @ 0xFF # y) ''gateway'' = Inl ''pii_detected'' \<and>
    evaluate default_v1 (x @ 0xFF # y) ''gateway'' = Inr ()"
proof -
  let ?a = "concat (map (\<lambda>d. [0xD9, d]) ds) :: bytes" and ?b = "x @ 0xFF # y"
  have len: "length ?a = 32" using assms(2) by (simp add: length_concat o_def sum_list_triv)
  have bytes_a: "c = 0xD9 \<or> 0xA0 \<le> c \<and> c \<le> 0xA9" if "c \<in> set ?a" for c
    using that assms(3) by (auto simp: list_all_iff split: if_splits)
  then have no_digit: "\<not> is_ascii_digit c" if "c \<in> set ?a" for c
    using that by (force simp: is_ascii_digit_def word_le_nat_alt)
  have "\<not> pan_run ?a"
  proof
    assume "pan_run ?a"
    then obtain pre w suf where "?a = pre @ w @ suf" "length w = 16" "list_all is_ascii_digit w"
      unfolding pan_run_def by blast
    moreover from this have "hd w \<in> set w" by (intro hd_in_set) auto
    ultimately show False using no_digit [of "hd w"] by (auto simp: list_all_iff)
  qed
  moreover have "0x3C \<notin> set ?a" "0x2D \<notin> set ?a" using bytes_a by force+
  ultimately have 1: "evaluate default_v1 ?a ''gateway'' = Inr ()"
    using len by (intro default_allows) simp_all
  have 2: "reference_policy re_search default_v1 ?a ''gateway'' = Inl ''pii_detected''"
    by (rule reference_denies_digits [OF assms(1)])
      (use len assms(2,3) arabic_range in \<open>auto simp: decode_arabic list_all_iff\<close>)
  have digits: "list_all is_ascii_digit x" "list_all is_ascii_digit y" using assms(7) by simp_all
  have asc: "ascii x" "ascii y" using digits by (force simp: ascii_def list_all_iff is_ascii_digit_def word_le_nat_alt word_less_nat_alt)+
  have "decode_ignore (0xFF # y) = decode_ignore y" by (simp add: utf8_width_def in_range_def Let_def)
  with asc have text_b: "decode_ignore ?b = map unat (x @ y)"
    by (simp add: decode_ascii_append decode_ascii_all del: decode_ignore.simps(2))
  have 3: "reference_policy re_search default_v1 ?b ''gateway'' = Inl ''pii_detected''"
    by (rule reference_denies_digits [OF assms(1)])
      (use assms(6,7) in \<open>auto simp: text_b list_all_iff is_ascii_digit_def word_le_nat_alt simp del: decode_ignore.simps(2)\<close>)
  have "0 < length x" "0 < length y" using assms(4,5) by simp_all
  then have "length x \<noteq> 16" "length y \<noteq> 16" using assms(6) by linarith+
  then have "\<not> pan_run ?b" using pan_run_break [OF digits(1), of "0xFF" y] pan_run_digits [OF digits(2)]
    by (simp add: is_ascii_digit_def)
  moreover have "is_ascii_digit c \<or> c = 0xFF" if "c \<in> set ?b" for c
    using that assms(7) by (auto simp: list_all_iff)
  from this [of "0x3C"] this [of "0x2D"] have "0x3C \<notin> set ?b" "0x2D \<notin> set ?b" by (auto simp: is_ascii_digit_def)
  ultimately have 4: "evaluate default_v1 ?b ''gateway'' = Inr ()"
    using assms(6) by (intro default_allows) simp_all
  from 1 2 3 4 show ?thesis by blast
qed

theorem unicode_digits_pass_witness:
  "reference_policy demo_search default_v1 (concat (map (\<lambda>d. [0xD9, d]) (replicate 16 0xA1))) ''gateway'' = Inl ''pii_detected'' \<and>
    evaluate default_v1 (concat (map (\<lambda>d. [0xD9, d]) (replicate 16 0xA1))) ''gateway'' = Inr () \<and>
    reference_policy demo_search default_v1 (as_bytes ''41111111'' @ 0xFF # as_bytes ''11111111'') ''gateway'' = Inl ''pii_detected'' \<and>
    evaluate default_v1 (as_bytes ''41111111'' @ 0xFF # as_bytes ''11111111'') ''gateway'' = Inr ()"
  by (rule unicode_digits_pass [OF demo_search_documented]) (simp_all add: as_bytes_def is_ascii_digit_def list_all_iff)

text \<open>The other way round, the scanner for social security numbers checks no word boundary: this input is denied
  by the enclave and matches neither published pattern.\<close>

lemma scanners_stricter:
  "evaluate default_v1 (as_bytes ''1123-45-67890'') ''gateway'' = Inl ''pii_detected'' \<and>
   reference_policy demo_search default_v1 (as_bytes ''1123-45-67890'') ''gateway'' = Inr ()"
proof -
  let ?b = "as_bytes ''1123-45-67890''"
  have a: "decode_ignore ?b = map unat ?b" by (rule decode_ascii_all) (simp add: ascii_def as_bytes_def)
  have ne: "regex_text pan_regex \<noteq> regex_text ssn_regex"
    by (simp add: ssn_regex_def pan_regex_def show_nat.simps digit_char_def)
  have "\<not> regex_search demo_digit demo_word ssn_regex (map unat ?b)" "\<not> regex_search demo_digit demo_word pan_regex (map unat ?b)"
    by (simp_all add: as_bytes_def regex_search_def ssn_regex_def pan_regex_def boundary_def demo_digit_def demo_word_def upt_rec)
  moreover have "\<not> sublist (as_bytes ''<RESTRICTED'') ?b"
    by (auto simp: as_bytes_def sublist_def Cons_eq_append_conv)
  ultimately have "reference_policy demo_search default_v1 ?b ''gateway'' = Inr ()"
    using ne by (simp add: reference_policy_def a decode_ascii_all [OF marker_ascii] sublist_map_unat
        deny_markers_default published_patterns demo_search_def Let_def) (simp add: default_v1_def as_bytes_def)
  then show ?thesis
    by (simp add: evaluate_def default_v1_def as_bytes_def contains_def windows_def looks_like_ssn_def
      Let_def is_ascii_digit_def upt_rec)
qed

end
