(* ===== verification/Framing.thy ===== *)
theory Framing
  imports Strings_Rust
begin

text \<open>
  The length-prefixed frames on the vsock stream: \<open>read_framed\<close> and \<open>write_framed\<close> of the enclave
  (\<open>services/pzdr-enclave/src/main.rs\<close>) and of the parent proxy
  (\<open>crates/vsock-parent-proxy/src/main.rs\<close>). A stream is the list of bytes not yet consumed, closed
  by the peer after the last one. The locale \<open>framing\<close> is the contract the two ends rely on.
\<close>

datatype frame_error = Unexpected_eof | Bail string

definition max_frame :: nat where
  "max_frame = 64 * 1024 * 1024"

definition read_exact :: "nat \<Rightarrow> bytes \<Rightarrow> frame_error + bytes \<times> bytes" where
  "read_exact n s = (if n \<le> length s then Inr (take n s, drop n s) else Inl Unexpected_eof)"

section \<open>The enclave's end\<close>

definition read_framed :: "bytes \<Rightarrow> frame_error + bytes \<times> bytes" where
  "read_framed s =
     rbind (read_exact 4 s) (\<lambda>(len_buf, s).
     let len = unat (u32_from_be len_buf) in
     rbind (ensure (\<not> max_frame < len) (Bail ''frame too large'')) (\<lambda>_.
     read_exact len s))"

definition write_framed :: "bytes \<Rightarrow> bytes \<Rightarrow> bytes" where
  "write_framed stream b = (stream @ u32_to_be (word_of_nat (length b))) @ b"

section \<open>The proxy's end\<close>

definition proxy_read_framed :: "bytes \<Rightarrow> frame_error + bytes \<times> bytes" where
  "proxy_read_framed s =
     rbind (read_exact 4 s) (\<lambda>(len_buf, s).
     let len = unat (u32_from_be len_buf) in
     rbind (ensure (\<not> max_frame < len) (Bail (''vsock frame too large: '' @ show_nat len))) (\<lambda>_.
     read_exact len s))"

definition proxy_write_framed :: "bytes \<Rightarrow> bytes \<Rightarrow> bytes" where
  "proxy_write_framed stream b = (let len = u32_to_be (word_of_nat (length b)) in (stream @ len) @ b)"

section \<open>The contract\<close>

fun read_all :: "(bytes \<Rightarrow> 'e + bytes \<times> bytes) \<Rightarrow> nat \<Rightarrow> bytes \<Rightarrow> 'e + bytes list \<times> bytes" where
  "read_all read 0 s = Inr ([], s)"
| "read_all read (Suc n) s =
     rbind (read s) (\<lambda>(b, s). rbind (read_all read n s) (\<lambda>(bs, s). Inr (b # bs, s)))"

locale framing =
  fixes read :: "bytes \<Rightarrow> 'e + bytes \<times> bytes"
    and wr :: "bytes \<Rightarrow> bytes \<Rightarrow> bytes"
    and limit :: nat
  assumes write_extends: "wr s b = s @ wr [] b"
    and read_write: "length b \<le> limit \<Longrightarrow> read (wr [] b @ s) = Inr (b, s)"
    and read_only_frames: "read s = Inr (b, r) \<Longrightarrow> length b \<le> limit \<and> s = wr [] b @ r"
begin

text \<open>Frames written one after another are read back in order.\<close>

lemma read_sequence:
  "list_all (\<lambda>b. length b \<le> limit) bs \<Longrightarrow> read_all read (length bs) (foldl wr [] bs @ s) = Inr (bs, s)"
proof -
  have fold: "foldl wr t bs = t @ concat (map (wr []) bs)" for t
  proof (induction bs arbitrary: t)
    case (Cons b bs)
    then show ?case using write_extends [of t b] by simp
  qed simp
  assume "list_all (\<lambda>b. length b \<le> limit) bs"
  then have "read_all read (length bs) (concat (map (wr []) bs) @ s) = Inr (bs, s)"
    by (induction bs) (simp_all add: read_write)
  then show ?thesis by (simp add: fold)
qed

lemma frame_unique: "wr [] a @ s = wr [] b @ t \<Longrightarrow> length a \<le> limit \<Longrightarrow> length b \<le> limit \<Longrightarrow> a = b \<and> s = t"
  by (metis Inr_inject prod.inject read_write)

end

section \<open>Both ends provide it\<close>

lemma u32_to_from_be: "length b = 4 \<Longrightarrow> u32_to_be (u32_from_be b) = b"
proof -
  assume "length b = 4"
  then obtain p q r s where b: "b = [p, q, r, s]"
    by (auto simp: length_Suc_conv eval_nat_numeral)
  have "u32_to_be (u32_from_be [p, q, r, s]) = [p, q, r, s]"
    by (auto simp: u32_to_be_def u32_from_be_def upt_rec bit_eq_iff bit_simps dest: bit_imp_le_length)
  with b show ?thesis by simp
qed

lemma read_write_framed:
  "read_framed (write_framed [] b @ s) =
     (let n = length b mod 2 ^ 32 in
      if max_frame < n then Inl (Bail ''frame too large'') else Inr (take n b, drop n b @ s))"
proof -
  have "length b mod 4294967296 \<le> length b" by (rule mod_less_eq_dividend)
  then show ?thesis
    by (simp add: read_framed_def write_framed_def read_exact_def unat_of_nat Let_def)
qed

lemma proxy_read_write_framed:
  "proxy_read_framed (proxy_write_framed [] b @ s) =
     (let n = length b mod 2 ^ 32 in
      if max_frame < n then Inl (Bail (''vsock frame too large: '' @ show_nat n))
      else Inr (take n b, drop n b @ s))"
proof -
  have "length b mod 4294967296 \<le> length b" by (rule mod_less_eq_dividend)
  then show ?thesis
    by (simp add: proxy_read_framed_def proxy_write_framed_def read_exact_def unat_of_nat Let_def)
qed

text \<open>What was read is a frame: four bytes of length and as many bytes as they say.\<close>

lemma header_then_body:
  assumes "4 \<le> length s" and "u32_from_be (take 4 s) = w" and "unat w \<le> length (drop 4 s)"
  shows "s = u32_to_be (word_of_nat (length (take (unat w) (drop 4 s)))) @ take (unat w) (drop 4 s) @
    drop (unat w) (drop 4 s)"
proof -
  have "length (take (unat w) (drop 4 s)) = unat w" using assms(3) by simp
  moreover have "u32_to_be (word_of_nat (unat w)) = take 4 s"
    using assms(1,2) u32_to_from_be [of "take 4 s"] by simp
  ultimately show ?thesis by (metis append_take_drop_id)
qed

lemma read_framed_frame: "read_framed s = Inr (b, r) \<Longrightarrow> length b \<le> max_frame \<and> s = write_framed [] b @ r"
  using header_then_body [of s]
  by (auto simp: read_framed_def write_framed_def read_exact_def result_iff Let_def split: if_splits)

lemma proxy_read_framed_frame:
  "proxy_read_framed s = Inr (b, r) \<Longrightarrow> length b \<le> max_frame \<and> s = proxy_write_framed [] b @ r"
  using header_then_body [of s]
  by (auto simp: proxy_read_framed_def proxy_write_framed_def read_exact_def result_iff Let_def split: if_splits)

lemma max_frame_mod: "n \<le> max_frame \<Longrightarrow> n mod 2 ^ 32 = n"
  by (simp add: max_frame_def)

interpretation enclave_frames: framing read_framed write_framed max_frame
proof
  show "write_framed s b = s @ write_framed [] b" for s b
    by (simp add: write_framed_def Let_def)
  show "read_framed (write_framed [] b @ s) = Inr (b, s)" if "length b \<le> max_frame" for s b
    using that by (simp add: read_write_framed max_frame_mod del: power_numeral)
qed (rule read_framed_frame)

interpretation proxy_frames: framing proxy_read_framed proxy_write_framed max_frame
proof
  show "proxy_write_framed s b = s @ proxy_write_framed [] b" for s b
    by (simp add: proxy_write_framed_def Let_def)
  show "proxy_read_framed (proxy_write_framed [] b @ s) = Inr (b, s)" if "length b \<le> max_frame" for s b
    using that by (simp add: proxy_read_write_framed max_frame_mod del: power_numeral)
qed (rule proxy_read_framed_frame)

text \<open>The two ends write the same bytes.\<close>

lemma same_frames: "proxy_write_framed = write_framed"
  by (simp add: fun_eq_iff proxy_write_framed_def write_framed_def)

end
