(* ===== verification/Enclave.thy ===== *)
theory Enclave
  imports Externals Policy Log_Interface Framing
begin

text \<open>
  The enclave binary, \<open>services/pzdr-enclave/src/main.rs\<close>: its state, the handlers of the gateway
  protocol and the dispatcher. A handler takes the crates (\<open>externals\<close>), what one request reads from
  its surroundings (\<open>request_io\<close>: clock readings, random bytes, elapsed time, the NSM device) and the
  state, and returns its result with the new state; \<open>None\<close> is a panic of the request's task, after
  which the state keeps what was already written to it.
\<close>

section \<open>Data\<close>

record proof_statement =
  proof_id :: string
  proof_version :: u32
  schema_url :: string
  session_id :: string
  tenant_id :: string
  ps_counter :: u64
  ps_timestamp :: u64
  commitment_hex :: string
  processor_id :: string
  upstream_model :: "string option"
  upstream_tokens_in :: "u64 option"
  upstream_tokens_out :: "u64 option"
  measurement :: string
  channel_public_key_hex :: string
  proof_verifier_key_hex :: string
  tee_backend :: string
  compute_tier :: string
  proof_mode :: string
  success :: bool
  error_code :: "string option"
  policy_decision :: json
  zeroization_report :: json
  result_hash_hex :: "string option"
  output_governance :: json
  failure_detail :: "json option"

record signed_proof =
  statement :: proof_statement
  signer_key_id :: string
  signature_b64 :: string

record checkpoint_statement =
  cs_size :: nat
  cs_root_hex :: string
  cs_timestamp :: u64

record signed_checkpoint =
  cp_size :: nat
  cp_root_hex :: string
  cp_timestamp :: u64
  checkpoint_signature_b64 :: string

record attestation_out =
  nitro_attestation_b64 :: string
  ao_measurement :: string
  ao_channel_public_key_hex :: string
  ao_proof_verifier_key_hex :: string
  binding_format :: string
  ao_tee_backend :: string
  ao_compute_tier :: string
  ao_timestamp :: u64

record enclave_state =
  channel_sk :: bytes
  channel_pk :: bytes
  proof_sk :: bytes
  counter :: u64
  ledger :: transparency_log
  enclave_policy :: policy
  nsm_fd :: int

text \<open>\<open>io_system_time\<close> gives the readings of the system clock, in nanoseconds relative to the epoch, \<open>io_random\<close> the
  bytes each call of \<open>OsRng\<close> writes, \<open>None\<close> when the operating system has none.\<close>

record request_io =
  io_system_time :: "nat \<Rightarrow> int"
  io_random :: "nat \<Rightarrow> (nat \<Rightarrow> byte) option"
  io_elapsed_us :: nat
  io_nsm :: nsm_device

section \<open>Clock and random identifiers\<close>

text \<open>\<open>now_secs\<close> panics before the epoch, \<open>random_hex\<close> when \<open>OsRng\<close> fails.\<close>

definition now_secs :: "request_io \<Rightarrow> nat \<Rightarrow> u64 option" where
  "now_secs io i =
     (let t = io_system_time io i in
      if t < 0 then None else Some (word_of_int (t div 1000000000)))"

definition random_hex :: "externals \<Rightarrow> request_io \<Rightarrow> nat \<Rightarrow> nat \<Rightarrow> string option" where
  "random_hex ext io i n_bytes =
     map_option (\<lambda>fill. hex_encode ext (map fill [0..<n_bytes])) (io_random io i)"

text \<open>What both kinds of proof statement take from the surroundings: two fresh identifiers and the
  time, which a success reads first and a failure last.\<close>

record stamp =
  stamp_proof_id :: string
  stamp_session_id :: string
  stamp_time :: u64

definition take_stamp :: "externals \<Rightarrow> request_io \<Rightarrow> stamp option" where
  "take_stamp ext io =
     (case (random_hex ext io 0 16, random_hex ext io 1 16, now_secs io 0) of
        (Some pid, Some sid, Some now) \<Rightarrow>
          Some \<lparr>stamp_proof_id = pid, stamp_session_id = sid, stamp_time = now\<rparr>
      | _ \<Rightarrow> None)"

section \<open>Serialization\<close>

definition statement_to_value :: "externals \<Rightarrow> proof_statement \<Rightarrow> json" where
  "statement_to_value ext s = obj ext
     [(''proof_id'', JString (proof_id s)),
      (''proof_version'', json_u64 (ucast (proof_version s))),
      (''schema_url'', JString (schema_url s)),
      (''session_id'', JString (session_id s)),
      (''tenant_id'', JString (tenant_id s)),
      (''counter'', json_u64 (ps_counter s)),
      (''timestamp'', json_u64 (ps_timestamp s)),
      (''commitment_hex'', JString (commitment_hex s)),
      (''processor_id'', JString (processor_id s)),
      (''upstream_model'', json_opt JString (upstream_model s)),
      (''upstream_tokens_in'', json_opt json_u64 (upstream_tokens_in s)),
      (''upstream_tokens_out'', json_opt json_u64 (upstream_tokens_out s)),
      (''measurement'', JString (measurement s)),
      (''channel_public_key_hex'', JString (channel_public_key_hex s)),
      (''proof_verifier_key_hex'', JString (proof_verifier_key_hex s)),
      (''tee_backend'', JString (tee_backend s)),
      (''compute_tier'', JString (compute_tier s)),
      (''proof_mode'', JString (proof_mode s)),
      (''success'', JBool (success s)),
      (''error_code'', json_opt JString (error_code s)),
      (''policy_decision'', policy_decision s),
      (''zeroization_report'', zeroization_report s),
      (''result_hash_hex'', json_opt JString (result_hash_hex s)),
      (''output_governance'', output_governance s),
      (''failure_detail'', json_opt (\<lambda>v. v) (failure_detail s))]"

definition proof_to_value :: "externals \<Rightarrow> signed_proof \<Rightarrow> json" where
  "proof_to_value ext p = obj ext
     [(''statement'', statement_to_value ext (statement p)),
      (''signer_key_id'', JString (signer_key_id p)),
      (''signature_b64'', JString (signature_b64 p))]"

definition checkpoint_statement_to_value :: "externals \<Rightarrow> checkpoint_statement \<Rightarrow> json" where
  "checkpoint_statement_to_value ext c = obj ext
     [(''size'', json_usize (cs_size c)),
      (''root_hex'', JString (cs_root_hex c)),
      (''timestamp'', json_u64 (cs_timestamp c))]"

definition checkpoint_to_value :: "externals \<Rightarrow> signed_checkpoint \<Rightarrow> json" where
  "checkpoint_to_value ext c = obj ext
     [(''size'', json_usize (cp_size c)),
      (''root_hex'', JString (cp_root_hex c)),
      (''timestamp'', json_u64 (cp_timestamp c)),
      (''checkpoint_signature_b64'', JString (checkpoint_signature_b64 c))]"

text \<open>\<open>serde_json::to_vec\<close> on a structure writes the fields in their declared order.\<close>

definition attestation_json :: "attestation_out \<Rightarrow> json" where
  "attestation_json a = JObject
     [(''nitro_attestation_b64'', JString (nitro_attestation_b64 a)),
      (''measurement'', JString (ao_measurement a)),
      (''channel_public_key_hex'', JString (ao_channel_public_key_hex a)),
      (''proof_verifier_key_hex'', JString (ao_proof_verifier_key_hex a)),
      (''binding_format'', JString (binding_format a)),
      (''tee_backend'', JString (ao_tee_backend a)),
      (''compute_tier'', JString (ao_compute_tier a)),
      (''timestamp'', json_u64 (ao_timestamp a))]"

definition response_json :: "vsock_response \<Rightarrow> json" where
  "response_json r = JObject
     [(''status'', json_u64 (ucast (resp_status r))),
      (''headers'', JObject (resp_headers r)),
      (''body_b64'', JString (resp_body_b64 r))]"

definition try_canonical_json :: "externals \<Rightarrow> json \<Rightarrow> string + bytes" where
  "try_canonical_json ext v = ok_or (json_error ext) (json_to_vec ext (gateway_sort_keys (map_insert ext) v))"

definition encode_hashes :: "externals \<Rightarrow> hash list \<Rightarrow> json" where
  "encode_hashes ext hs = JArray (map (\<lambda>h. JString (hex_encode ext h)) hs)"

section \<open>Boot and attestation\<close>

text \<open>\<open>fd\<close> is what \<open>nsm_init\<close> returns; the device is polled twice for 32 bytes. \<open>copy_from_slice\<close>
  panics when the lengths differ.\<close>

definition copy_32 :: "bytes \<Rightarrow> bytes option" where
  "copy_32 b = (if length b = 32 then Some b else None)"

definition new_state :: "externals \<Rightarrow> int \<Rightarrow> nsm_device \<Rightarrow> (string + enclave_state) option" where
  "new_state ext fd dev =
     (case nsm_new fd of
        Inl e \<Rightarrow> Some (Inl (''nsm init: '' @ nitro_debug ext e))
      | Inr nsm \<Rightarrow>
     (case random_bytes dev 0 32 of
        None \<Rightarrow> None
      | Some (Inl e, _) \<Rightarrow> Some (Inl (nitro_debug ext e))
      | Some (Inr channel_seed, k) \<Rightarrow>
     (case random_bytes dev k 32 of
        None \<Rightarrow> None
      | Some (Inl e, _) \<Rightarrow> Some (Inl (nitro_debug ext e))
      | Some (Inr proof_seed, _) \<Rightarrow>
     (case (copy_32 channel_seed, copy_32 proof_seed) of
        (Some cs, Some ps) \<Rightarrow> Some (Inr
          \<lparr>channel_sk = cs, channel_pk = x25519_public ext cs, proof_sk = ps, counter = 0,
           ledger = new_log, enclave_policy = default_v1, nsm_fd = nsm\<rparr>)
      | _ \<Rightarrow> None))))"

definition binding_value :: "externals \<Rightarrow> enclave_state \<Rightarrow> json" where
  "binding_value ext st = obj ext
     [(''format'', JString ''pzdr-attestation-binding/v1''),
      (''channel_public_key_hex'', JString (hex_encode ext (channel_pk st))),
      (''proof_verifier_key_hex'', JString (hex_encode ext (ed25519_public ext (proof_sk st))))]"

definition publish_attestation ::
  "externals \<Rightarrow> request_io \<Rightarrow> enclave_state \<Rightarrow> (string + attestation_out) option"
where
  "publish_attestation ext io st =
     (case try_canonical_json ext (binding_value ext st) of
        Inl e \<Rightarrow> Some (Inl e)
      | Inr user_data \<Rightarrow>
     (case generate_attestation (io_nsm io) 0 (Some user_data) None (Some (channel_pk st)) of
        Inl e \<Rightarrow> Some (Inl (''nsm attestation: '' @ nitro_debug ext e))
      | Inr doc \<Rightarrow>
     (case now_secs io 0 of
        None \<Rightarrow> None
      | Some now \<Rightarrow> Some (Inr
          \<lparr>nitro_attestation_b64 = b64_encode ext doc,
           ao_measurement = expected_pcr0 ext,
           ao_channel_public_key_hex = hex_encode ext (channel_pk st),
           ao_proof_verifier_key_hex = hex_encode ext (ed25519_public ext (proof_sk st)),
           binding_format = ''pzdr-attestation-binding/v1'',
           ao_tee_backend = ''aws-nitro'',
           ao_compute_tier = ''tier1_cpu_enclave_only'',
           ao_timestamp = now\<rparr>))))"

section \<open>Checkpoints and the ledger\<close>

definition sign_checkpoint ::
  "externals \<Rightarrow> u64 option \<Rightarrow> enclave_state \<Rightarrow> nat \<Rightarrow> hash \<Rightarrow> signed_checkpoint option"
where
  "sign_checkpoint ext now st n root_hash =
     (case now of
        None \<Rightarrow> None
      | Some t \<Rightarrow>
     (let stmt = \<lparr>cs_size = n, cs_root_hex = hex_encode ext root_hash, cs_timestamp = t\<rparr> in
      case try_canonical_json ext (checkpoint_statement_to_value ext stmt) of
        Inl e \<Rightarrow> None
      | Inr msg \<Rightarrow> Some
          \<lparr>cp_size = cs_size stmt, cp_root_hex = cs_root_hex stmt, cp_timestamp = cs_timestamp stmt,
           checkpoint_signature_b64 = b64_encode ext (ed25519_sign ext (proof_sk st) msg)\<rparr>))"

abbreviation current_checkpoint :: "externals \<Rightarrow> u64 option \<Rightarrow> enclave_state \<Rightarrow> signed_checkpoint option" where
  "current_checkpoint ext now st \<equiv>
     sign_checkpoint ext now st (log_size (ledger st)) (root (sha256 ext) (ledger st))"

text \<open>The object both \<open>append_proof\<close> and \<open>ledger_proof\<close> build.\<close>

definition receipt_value :: "externals \<Rightarrow> nat \<Rightarrow> hash \<Rightarrow> hash list \<Rightarrow> signed_checkpoint \<Rightarrow> json" where
  "receipt_value ext index leaf path checkpoint = obj ext
     [(''index'', json_usize index),
      (''leaf_hash_hex'', JString (hex_encode ext leaf)),
      (''audit_path'', encode_hashes ext path),
      (''checkpoint'', checkpoint_to_value ext checkpoint)]"

definition append_proof ::
  "externals \<Rightarrow> u64 option \<Rightarrow> enclave_state \<Rightarrow> signed_proof \<Rightarrow> (string + json) option \<times> enclave_state"
where
  "append_proof ext now st proof =
     (case try_canonical_json ext (proof_to_value ext proof) of
        Inl e \<Rightarrow> (Some (Inl e), st)
      | Inr entry \<Rightarrow>
     (let (log, index) = log_append (sha256 ext) (ledger st) entry;
          st = st\<lparr>ledger := log\<rparr> in
      case leaf_at log index of
        None \<Rightarrow> (Some (Inl ''appended leaf missing''), st)
      | Some leaf \<Rightarrow>
     (case inclusion_path (sha256 ext) log index of
        None \<Rightarrow> (None, st)
      | Some None \<Rightarrow> (Some (Inl ''inclusion path missing''), st)
      | Some (Some path) \<Rightarrow>
     (case current_checkpoint ext now st of
        None \<Rightarrow> (None, st)
      | Some checkpoint \<Rightarrow> (Some (Inr (receipt_value ext index leaf path checkpoint)), st)))))"

definition ledger_root :: "externals \<Rightarrow> request_io \<Rightarrow> enclave_state \<Rightarrow> json option" where
  "ledger_root ext io st =
     (case current_checkpoint ext (now_secs io 0) st of
        None \<Rightarrow> None
      | Some checkpoint \<Rightarrow> Some (obj ext [(''checkpoint'', checkpoint_to_value ext checkpoint)]))"

definition ledger_proof :: "externals \<Rightarrow> request_io \<Rightarrow> enclave_state \<Rightarrow> nat \<Rightarrow> json option option" where
  "ledger_proof ext io st idx =
     (case leaf_at (ledger st) idx of
        None \<Rightarrow> Some None
      | Some leaf \<Rightarrow>
     (case inclusion_path (sha256 ext) (ledger st) idx of
        None \<Rightarrow> None
      | Some None \<Rightarrow> Some None
      | Some (Some path) \<Rightarrow>
     (case current_checkpoint ext (now_secs io 0) st of
        None \<Rightarrow> None
      | Some checkpoint \<Rightarrow> Some (Some (receipt_value ext idx leaf path checkpoint)))))"

definition consistency_value ::
  "externals \<Rightarrow> signed_checkpoint \<Rightarrow> signed_checkpoint \<Rightarrow> hash list \<Rightarrow> json"
where
  "consistency_value ext from_checkpoint to_checkpoint path = obj ext
     [(''from_checkpoint'', checkpoint_to_value ext from_checkpoint),
      (''to_checkpoint'', checkpoint_to_value ext to_checkpoint),
      (''consistency_path'', encode_hashes ext path)]"

definition ledger_consistency ::
  "externals \<Rightarrow> request_io \<Rightarrow> enclave_state \<Rightarrow> nat \<Rightarrow> json option option"
where
  "ledger_consistency ext io st from_size =
     (case root_at (sha256 ext) (ledger st) from_size of
        None \<Rightarrow> Some None
      | Some from_root \<Rightarrow>
     (case consistency_path (sha256 ext) (ledger st) from_size of
        None \<Rightarrow> None
      | Some None \<Rightarrow> Some None
      | Some (Some path) \<Rightarrow>
     (case sign_checkpoint ext (now_secs io 0) st from_size from_root of
        None \<Rightarrow> None
      | Some from_checkpoint \<Rightarrow>
     (case current_checkpoint ext (now_secs io 1) st of
        None \<Rightarrow> None
      | Some to_checkpoint \<Rightarrow>
          Some (Some (consistency_value ext from_checkpoint to_checkpoint path))))))"

section \<open>Requests\<close>

text \<open>
  \<open>process_and_delete\<close> in the order of the code: the channel (key lengths, key derivation,
  decryption), the commitment, the policy and the upstream call are pure and decide what the session
  ends in; then the session draws its counter, builds and signs its statement and appends it.
\<close>

definition open_channel :: "externals \<Rightarrow> enclave_state \<Rightarrow> inference_request \<Rightarrow> string + bytes" where
  "open_channel ext st req =
     rbind (ok_or ''channel_decrypt_failed'' (hex_decode ext (client_pub_hex req))) (\<lambda>client_pub.
     rbind (ok_or ''channel_decrypt_failed'' (hex_decode ext (ciphertext_hex req))) (\<lambda>ciphertext.
     rbind (ok_or ''channel_decrypt_failed'' (hex_decode ext (nonce_hex req))) (\<lambda>nonce_bytes.
     rbind (ensure (length client_pub = 32) ''channel_decrypt_failed'') (\<lambda>_.
     rbind (ensure (length nonce_bytes = 24) ''channel_decrypt_failed'') (\<lambda>_.
     let shared = x25519_dh ext (channel_sk st) client_pub in
     rbind (ok_or ''channel_key_derivation_failed''
       (hkdf_expand ext (as_bytes ''pzdr-channel-v1'') shared (as_bytes ''channel-aead'') 32)) (\<lambda>aead_key.
     rbind (ensure (aead_key_ok ext aead_key) ''channel_key_derivation_failed'') (\<lambda>_.
     ok_or ''channel_decrypt_failed'' (aead_decrypt ext aead_key nonce_bytes ciphertext []))))))))"

definition check_commitment :: "externals \<Rightarrow> inference_request \<Rightarrow> bytes \<Rightarrow> string + unit" where
  "check_commitment ext req plaintext =
     rbind (ok_or ''invalid_commitment_salt'' (hex_decode ext (commitment_salt_hex req))) (\<lambda>salt.
     let recomputed = hex_encode ext (sha256 ext (plaintext @ salt @ as_bytes (commitment_context req))) in
     ensure (recomputed = req_commitment_hex req) ''commitment_mismatch'')"

text \<open>Slicing a string shorter than 32 bytes panics.\<close>

definition call_upstream :: "externals \<Rightarrow> bytes \<Rightarrow> (string + json) option" where
  "call_upstream ext plaintext =
     (let digest_hex = hex_encode ext (sha256 ext plaintext) in
      if length digest_hex < 32 then None
      else Some (Inr (obj ext
        [(''model'', JString ''mock-claude-sonnet-4.5''),
         (''response'', JString (''[mock] processed '' @ show_nat (length plaintext) @ '' bytes: '' @
            take 32 digest_hex)),
         (''input_tokens'', json_usize (length plaintext div 4)),
         (''output_tokens'', json_u64 16)])))"

datatype decision =
    Refused (refused_code: string) (refused_commitment: string) (refused_processor: string)
      (refused_wiped: bool)
  | Served (served_commitment: string) (served_processor: string) (served_response: json)
      (served_hash: string)
  | Aborted string

definition requested_processor :: "inference_request \<Rightarrow> string" where
  "requested_processor req = (case req_processor_id req of None \<Rightarrow> ''gateway'' | Some p \<Rightarrow> p)"

text \<open>From the policy on: what the plaintext leads to.\<close>

definition decide_plaintext :: "externals \<Rightarrow> enclave_state \<Rightarrow> bytes \<Rightarrow> string \<Rightarrow> string \<Rightarrow> decision option" where
  "decide_plaintext ext st plaintext commitment processor =
     (case evaluate (enclave_policy st) plaintext processor of
        Inl reason \<Rightarrow> Some (Refused reason commitment processor True)
      | Inr _ \<Rightarrow>
     (case call_upstream ext plaintext of
        None \<Rightarrow> None
      | Some (Inl _) \<Rightarrow> Some (Refused ''upstream_failed'' commitment processor True)
      | Some (Inr upstream_resp) \<Rightarrow>
     (case json_to_vec ext upstream_resp of
        None \<Rightarrow> Some (Aborted (json_error ext))
      | Some result_bytes \<Rightarrow>
          Some (Served commitment processor upstream_resp (hex_encode ext (sha256 ext result_bytes))))))"

definition decide :: "externals \<Rightarrow> enclave_state \<Rightarrow> bytes \<Rightarrow> decision option" where
  "decide ext st body =
     (case parse_request ext body of
        None \<Rightarrow> Some (Refused ''malformed_request'' [] ''gateway'' False)
      | Some req \<Rightarrow>
     (let processor = requested_processor req; commitment = req_commitment_hex req in
      case open_channel ext st req of
        Inl code \<Rightarrow> Some (Refused code commitment processor False)
      | Inr plaintext \<Rightarrow>
     (case check_commitment ext req plaintext of
        Inl code \<Rightarrow> Some (Refused code commitment processor True)
      | Inr _ \<Rightarrow> decide_plaintext ext st plaintext commitment processor)))"

text \<open>\<open>fetch_add\<close> wraps around.\<close>

definition next_counter :: "enclave_state \<Rightarrow> u64 \<times> enclave_state" where
  "next_counter st = (counter st + 1, st\<lparr>counter := counter st + 1\<rparr>)"

definition policy_decision_value ::
  "externals \<Rightarrow> enclave_state \<Rightarrow> bool \<Rightarrow> string \<Rightarrow> string \<Rightarrow> string \<Rightarrow> json"
where
  "policy_decision_value ext st allow reason tenant processor = obj ext
     [(''allow'', JBool allow),
      (''reason'', JString reason),
      (''policy_id'', JString (policy_id (enclave_policy st))),
      (''policy_version'', json_u64 (ucast (policy_version (enclave_policy st)))),
      (''policy_hash'', JString (policy_hash ext (enclave_policy st))),
      (''tenant'', JString tenant),
      (''processor'', JString processor)]"

definition zeroization_value :: "externals \<Rightarrow> bool \<Rightarrow> bool \<Rightarrow> json" where
  "zeroization_value ext input_wiped returned = obj ext
     [(''input_buffer_wiped'', JBool input_wiped),
      (''response_buffer_wiped'', JBool False),
      (''response_buffer_returned'', JBool returned)]"

definition failure_statement ::
  "externals \<Rightarrow> stamp \<Rightarrow> enclave_state \<Rightarrow> u64 \<Rightarrow> string \<Rightarrow> string \<Rightarrow> string \<Rightarrow> string \<Rightarrow> bool \<Rightarrow>
   proof_statement"
where
  "failure_statement ext stamp st n code commitment tenant processor input_wiped =
     \<lparr>proof_id = stamp_proof_id stamp,
      proof_version = 3,
      schema_url = ''pzdr://proof/v3'',
      session_id = stamp_session_id stamp,
      tenant_id = tenant,
      ps_counter = n,
      ps_timestamp = stamp_time stamp,
      commitment_hex = commitment,
      processor_id = processor,
      upstream_model = None,
      upstream_tokens_in = None,
      upstream_tokens_out = None,
      measurement = expected_pcr0 ext,
      channel_public_key_hex = hex_encode ext (channel_pk st),
      proof_verifier_key_hex = hex_encode ext (ed25519_public ext (proof_sk st)),
      tee_backend = ''aws-nitro'',
      compute_tier = ''tier1_cpu_enclave_only'',
      proof_mode = ''attestation'',
      success = False,
      error_code = Some code,
      policy_decision = policy_decision_value ext st False code tenant processor,
      zeroization_report = zeroization_value ext input_wiped False,
      result_hash_hex = None,
      output_governance = obj ext [],
      failure_detail = Some (obj ext [(''code'', JString code)])\<rparr>"

definition success_statement ::
  "externals \<Rightarrow> stamp \<Rightarrow> enclave_state \<Rightarrow> u64 \<Rightarrow> string \<Rightarrow> string \<Rightarrow> string \<Rightarrow> json \<Rightarrow> string \<Rightarrow>
   proof_statement"
where
  "success_statement ext stamp st n commitment tenant processor upstream_resp result_hash =
     \<lparr>proof_id = stamp_proof_id stamp,
      proof_version = 3,
      schema_url = ''pzdr://proof/v3'',
      session_id = stamp_session_id stamp,
      tenant_id = tenant,
      ps_counter = n,
      ps_timestamp = stamp_time stamp,
      commitment_hex = commitment,
      processor_id = processor,
      upstream_model = Option.bind (json_get upstream_resp ''model'') as_str,
      upstream_tokens_in = Option.bind (json_get upstream_resp ''input_tokens'') as_u64,
      upstream_tokens_out = Option.bind (json_get upstream_resp ''output_tokens'') as_u64,
      measurement = expected_pcr0 ext,
      channel_public_key_hex = hex_encode ext (channel_pk st),
      proof_verifier_key_hex = hex_encode ext (ed25519_public ext (proof_sk st)),
      tee_backend = ''aws-nitro'',
      compute_tier = ''tier1_cpu_enclave_only'',
      proof_mode = ''attestation'',
      success = True,
      error_code = None,
      policy_decision = policy_decision_value ext st True ''allowed'' tenant processor,
      zeroization_report = zeroization_value ext True True,
      result_hash_hex = Some result_hash,
      output_governance = obj ext
        [(''retention_policy'', JString ''returned-only''), (''expires_at'', json_u64 (stamp_time stamp))],
      failure_detail = None\<rparr>"

definition sign_proof :: "externals \<Rightarrow> enclave_state \<Rightarrow> proof_statement \<Rightarrow> string + signed_proof" where
  "sign_proof ext st stmt =
     rbind (try_canonical_json ext (statement_to_value ext stmt)) (\<lambda>canonical.
     let signature = ed25519_sign ext (proof_sk st) canonical in
     Inr \<lparr>statement = stmt, signer_key_id = ''enclave-proof-v1'', signature_b64 = b64_encode ext signature\<rparr>)"

text \<open>Signing and appending are the last steps of \<open>fail\<close> and of \<open>process_and_delete\<close>; the two differ
  in the statement and in the object they return.\<close>

definition emit_proof ::
  "externals \<Rightarrow> request_io \<Rightarrow> enclave_state \<Rightarrow> proof_statement \<Rightarrow> (string + signed_proof \<times> json) option \<times> enclave_state"
where
  "emit_proof ext io st stmt =
     (case sign_proof ext st stmt of
        Inl e \<Rightarrow> (Some (Inl e), st)
      | Inr proof \<Rightarrow>
     (case append_proof ext (now_secs io 1) st proof of
        (None, st) \<Rightarrow> (None, st)
      | (Some (Inl e), st) \<Rightarrow> (Some (Inl e), st)
      | (Some (Inr receipt), st) \<Rightarrow> (Some (Inr (proof, receipt)), st)))"

definition timings_value :: "externals \<Rightarrow> request_io \<Rightarrow> json" where
  "timings_value ext io = obj ext [(''total'', json_u64 (word_of_nat (io_elapsed_us io)))]"

definition failure_value :: "externals \<Rightarrow> request_io \<Rightarrow> string \<Rightarrow> signed_proof \<Rightarrow> json \<Rightarrow> json" where
  "failure_value ext io code proof receipt = obj ext
     [(''ok'', JBool False), (''error'', JString code),
      (''proof'', proof_to_value ext proof), (''receipt'', receipt),
      (''timings_us'', timings_value ext io)]"

definition success_value :: "externals \<Rightarrow> request_io \<Rightarrow> json \<Rightarrow> signed_proof \<Rightarrow> json \<Rightarrow> json" where
  "success_value ext io upstream_resp proof receipt = obj ext
     [(''ok'', JBool True), (''model_response'', upstream_resp),
      (''proof'', proof_to_value ext proof), (''receipt'', receipt),
      (''timings_us'', timings_value ext io)]"

definition answer ::
  "(signed_proof \<Rightarrow> json \<Rightarrow> json) \<Rightarrow> (string + signed_proof \<times> json) option \<times> enclave_state \<Rightarrow>
   (string + json) option \<times> enclave_state"
where
  "answer f r = (map_option (map_sum id (\<lambda>(proof, receipt). f proof receipt)) (fst r), snd r)"

text \<open>\<open>log_failure\<close> and \<open>log_success\<close> are what is left of \<open>fail\<close> and of \<open>process_and_delete\<close> once the counter \<open>n\<close>
  is drawn. Between the draw and this rest other tasks run.\<close>

definition log_failure ::
  "externals \<Rightarrow> request_io \<Rightarrow> u64 \<Rightarrow> enclave_state \<Rightarrow> string \<Rightarrow> string \<Rightarrow> string \<Rightarrow> string \<Rightarrow> bool \<Rightarrow>
   (string + json) option \<times> enclave_state"
where
  "log_failure ext io n st code commitment tenant processor input_wiped =
     (case take_stamp ext io of
        None \<Rightarrow> (None, st)
      | Some stamp \<Rightarrow>
          answer (failure_value ext io code)
            (emit_proof ext io st
              (failure_statement ext stamp st n code commitment tenant processor input_wiped)))"

definition log_success ::
  "externals \<Rightarrow> request_io \<Rightarrow> u64 \<Rightarrow> enclave_state \<Rightarrow> string \<Rightarrow> string \<Rightarrow> string \<Rightarrow> json \<Rightarrow> string \<Rightarrow>
   (string + json) option \<times> enclave_state"
where
  "log_success ext io n st commitment tenant processor upstream_resp result_hash =
     (case take_stamp ext io of
        None \<Rightarrow> (None, st)
      | Some stamp \<Rightarrow>
          answer (success_value ext io upstream_resp)
            (emit_proof ext io st
              (success_statement ext stamp st n commitment tenant processor upstream_resp result_hash)))"

definition fail ::
  "externals \<Rightarrow> request_io \<Rightarrow> enclave_state \<Rightarrow> string \<Rightarrow> string \<Rightarrow> string \<Rightarrow> string \<Rightarrow> bool \<Rightarrow>
   (string + json) option \<times> enclave_state"
where
  "fail ext io st code commitment tenant processor input_wiped =
     (let (n, st) = next_counter st in
      log_failure ext io n st code commitment tenant processor input_wiped)"

definition process_and_delete ::
  "externals \<Rightarrow> request_io \<Rightarrow> enclave_state \<Rightarrow> bytes \<Rightarrow> string \<Rightarrow> (string + json) option \<times> enclave_state"
where
  "process_and_delete ext io st body tenant =
     (case decide ext st body of
        None \<Rightarrow> (None, st)
      | Some (Refused code commitment processor input_wiped) \<Rightarrow>
          fail ext io st code commitment tenant processor input_wiped
      | Some (Aborted e) \<Rightarrow> (Some (Inl e), st)
      | Some (Served commitment processor upstream_resp result_hash) \<Rightarrow>
     (let (n, st) = next_counter st in
      log_success ext io n st commitment tenant processor upstream_resp result_hash))"

section \<open>Dispatch\<close>

definition json_resp :: "externals \<Rightarrow> u16 \<Rightarrow> json \<Rightarrow> vsock_response" where
  "json_resp ext status v =
     (let body = (case json_to_vec ext v of None \<Rightarrow> as_bytes ''{}'' | Some b \<Rightarrow> b) in
      \<lparr>resp_status = status,
       resp_headers = map_insert ext ''content-type'' (JString ''application/json'') [],
       resp_body_b64 = b64_encode ext body\<rparr>)"

abbreviation proof_route :: string where
  "proof_route \<equiv> ''/v1/ledger/proof/''"

abbreviation consistency_route :: string where
  "consistency_route \<equiv> ''/v1/ledger/consistency/''"

definition error_value :: "externals \<Rightarrow> string \<Rightarrow> json" where
  "error_value ext e = obj ext [(''error'', JString e)]"

definition error_resp :: "externals \<Rightarrow> u16 \<Rightarrow> string \<Rightarrow> vsock_response" where
  "error_resp ext status e = json_resp ext status (error_value ext e)"

definition tenant_of :: "vsock_envelope \<Rightarrow> string" where
  "tenant_of env =
     (case Option.bind (map_of (env_headers env) ''x-tenant-id'') as_str of
        None \<Rightarrow> ''demo''
      | Some t \<Rightarrow> t)"

definition request_body :: "externals \<Rightarrow> vsock_envelope \<Rightarrow> bytes" where
  "request_body ext env = (case b64_decode ext (env_body_b64 env) of None \<Rightarrow> [] | Some b \<Rightarrow> b)"

text \<open>The one route that changes the state, and how its result is answered.\<close>

definition inference_route :: "vsock_envelope \<Rightarrow> bool" where
  "inference_route env \<longleftrightarrow> env_method env = ''POST'' \<and> env_path env = ''/v1/gateway/inference''"

definition inference_answer :: "externals \<Rightarrow> string + json \<Rightarrow> u16 \<times> json" where
  "inference_answer ext r =
     (case r of
        Inr v \<Rightarrow> (200, v)
      | Inl e \<Rightarrow> (500, obj ext [(''ok'', JBool False), (''error'', JString (anyhow_debug ext e))]))"

text \<open>The other arms of the \<open>match\<close>: they read the state under the ledger's lock and leave it alone.\<close>

definition answer_query :: "externals \<Rightarrow> request_io \<Rightarrow> enclave_state \<Rightarrow> vsock_envelope \<Rightarrow> (u16 \<times> json) option" where
  "answer_query ext io st env =
     (let path = env_path env in
      if env_method env = ''GET'' \<and> path = ''/v1/attestation'' then
        map_option (\<lambda>r. case r of
             Inr att \<Rightarrow> (200, attestation_json att)
           | Inl e \<Rightarrow> (500, error_value ext (anyhow_debug ext e))) (publish_attestation ext io st)
      else if env_method env = ''GET'' \<and> path = ''/v1/ledger/root'' then
        map_option (\<lambda>v. (200, v)) (ledger_root ext io st)
      else if env_method env = ''GET'' \<and> prefix proof_route path then
        (case parse_usize (trim_start_matches proof_route path) of
           Some idx \<Rightarrow> map_option (\<lambda>r. case r of
               Some v \<Rightarrow> (200, v)
             | None \<Rightarrow> (404, error_value ext ''ledger_index_not_found'')) (ledger_proof ext io st idx)
         | None \<Rightarrow> Some (400, error_value ext ''invalid_ledger_index''))
      else if env_method env = ''GET'' \<and> prefix consistency_route path then
        (case parse_usize (trim_start_matches consistency_route path) of
           Some n \<Rightarrow> map_option (\<lambda>r. case r of
               Some v \<Rightarrow> (200, v)
             | None \<Rightarrow> (400, error_value ext ''invalid_tree_size'')) (ledger_consistency ext io st n)
         | None \<Rightarrow> Some (400, error_value ext ''invalid_tree_size''))
      else
        Some (404, obj ext
           [(''error'', JString ''not found''), (''method'', JString (env_method env)),
            (''path'', JString path)]))"

definition dispatch ::
  "externals \<Rightarrow> request_io \<Rightarrow> enclave_state \<Rightarrow> vsock_envelope \<Rightarrow> vsock_response option \<times> enclave_state"
where
  "dispatch ext io st env =
     (if inference_route env then
        (let (r, st) = process_and_delete ext io st (request_body ext env) (tenant_of env) in
         (map_option (\<lambda>r. let (status, v) = inference_answer ext r in json_resp ext status v) r, st))
      else (map_option (\<lambda>(status, v). json_resp ext status v) (answer_query ext io st env), st))"

text \<open>One connection: a frame in, a frame out. The state survives every error and panic.\<close>

datatype conn_error = Conn_frame frame_error | Conn_json string

definition receive :: "externals \<Rightarrow> bytes \<Rightarrow> conn_error + vsock_envelope" where
  "receive ext stream =
     (case read_framed stream of
        Inl e \<Rightarrow> Inl (Conn_frame e)
      | Inr (frame, _) \<Rightarrow> ok_or (Conn_json (json_error ext)) (parse_envelope ext frame))"

definition respond :: "externals \<Rightarrow> vsock_response \<Rightarrow> conn_error + bytes" where
  "respond ext resp =
     rbind (ok_or (Conn_json (json_error ext)) (json_to_vec ext (response_json resp))) (\<lambda>resp_bytes.
     Inr (write_framed [] resp_bytes))"

definition handle_conn ::
  "externals \<Rightarrow> request_io \<Rightarrow> enclave_state \<Rightarrow> bytes \<Rightarrow> (conn_error + bytes) option \<times> enclave_state"
where
  "handle_conn ext io st stream =
     (case receive ext stream of
        Inl e \<Rightarrow> (Some (Inl e), st)
      | Inr env \<Rightarrow>
     (case dispatch ext io st env of
        (None, st) \<Rightarrow> (None, st)
      | (Some resp, st) \<Rightarrow> (Some (respond ext resp), st)))"

end
