(* ===== verification/Enclave_Lemmas.thy ===== *)
theory Enclave_Lemmas
  imports Enclave
begin

text \<open>
  How the enclave's operations change its state and what they return: the effect of appending a
  proof, of a failed and of a served session, and the conditions under which no task panics.
\<close>

section \<open>Healthy surroundings\<close>

text \<open>The writer does not fail on the values the program builds, the clock is after the epoch, the
  operating system has random bytes and a digest in hexadecimal has at least 32 characters (it has 64).\<close>

definition healthy :: "externals \<Rightarrow> request_io \<Rightarrow> bool" where
  "healthy ext io \<longleftrightarrow> (\<forall>v. json_to_vec ext v \<noteq> None) \<and> (\<forall>i. now_secs io i \<noteq> None) \<and>
     (\<forall>i. io_random io i \<noteq> None) \<and>
     (\<forall>b. 32 \<le> length (hex_encode ext (sha256 ext b)))"

lemma healthy_canonical: "healthy ext io \<Longrightarrow> \<exists>b. try_canonical_json ext v = Inr b"
  by (auto simp: healthy_def try_canonical_json_def ok_or_def split: option.splits)

lemma healthy_clock: "healthy ext io \<Longrightarrow> \<exists>t. now_secs io i = Some t"
  by (auto simp: healthy_def)

lemma healthy_stamp: "healthy ext io \<Longrightarrow> \<exists>stamp. take_stamp ext io = Some stamp"
proof -
  assume h: "healthy ext io"
  then have "io_random io i \<noteq> None" for i by (simp add: healthy_def)
  then obtain r r' where "io_random io 0 = Some r" "io_random io 1 = Some r'" by blast
  with healthy_clock [OF h, of 0] show ?thesis by (auto simp: take_stamp_def random_hex_def)
qed

lemma healthy_upstream: "healthy ext io \<Longrightarrow> \<exists>v. call_upstream ext pt = Some (Inr v)"
  by (auto simp: healthy_def call_upstream_def Let_def not_less)

section \<open>Checkpoints\<close>

lemma checkpoint_fields:
  "sign_checkpoint ext now st n r = Some cp \<Longrightarrow>
   cp_size cp = n \<and> cp_root_hex cp = hex_encode ext r \<and> now = Some (cp_timestamp cp)"
  by (auto simp: sign_checkpoint_def Let_def split: option.splits sum.splits)

text \<open>The message under a checkpoint's signature.\<close>

definition checkpoint_signed :: "externals \<Rightarrow> bytes \<Rightarrow> signed_checkpoint \<Rightarrow> bool" where
  "checkpoint_signed ext sk cp \<longleftrightarrow>
     (\<exists>msg. try_canonical_json ext (checkpoint_statement_to_value ext
          \<lparr>cs_size = cp_size cp, cs_root_hex = cp_root_hex cp, cs_timestamp = cp_timestamp cp\<rparr>) = Inr msg \<and>
        checkpoint_signature_b64 cp = b64_encode ext (ed25519_sign ext sk msg))"

lemma sign_checkpoint_signed:
  "sign_checkpoint ext now st n r = Some cp \<Longrightarrow> checkpoint_signed ext (proof_sk st) cp"
  by (auto simp: sign_checkpoint_def checkpoint_signed_def Let_def split: option.splits sum.splits)

lemma healthy_checkpoint: "healthy ext io \<Longrightarrow> \<exists>cp. sign_checkpoint ext (now_secs io i) st n r = Some cp"
proof -
  assume h: "healthy ext io"
  then obtain t where "now_secs io i = Some t" using healthy_clock by blast
  moreover obtain msg where "try_canonical_json ext (checkpoint_statement_to_value ext
      \<lparr>cs_size = n, cs_root_hex = hex_encode ext r, cs_timestamp = t\<rparr>) = Inr msg"
    using healthy_canonical [OF h] by blast
  ultimately show ?thesis by (simp add: sign_checkpoint_def)
qed

section \<open>Appending a proof\<close>

text \<open>\<open>entry_logged\<close>: the state after an entry was appended; \<open>receipt_for\<close>: a receipt whose path
  verifies for that entry under the signed head.\<close>

definition entry_logged :: "externals \<Rightarrow> enclave_state \<Rightarrow> bytes \<Rightarrow> enclave_state" where
  "entry_logged ext st entry = st\<lparr>ledger := fst (log_append (sha256 ext) (ledger st) entry)\<rparr>"

definition receipt_for :: "externals \<Rightarrow> enclave_state \<Rightarrow> bytes \<Rightarrow> json \<Rightarrow> bool" where
  "receipt_for ext st entry receipt \<longleftrightarrow>
     (\<exists>index path cp. receipt = receipt_value ext index (leaf_hash (sha256 ext) entry) path cp \<and>
        cp_size cp = Suc index \<and> cp_size cp = log_size (ledger st) \<and> cp_root_hex cp = hex_encode ext (root (sha256 ext) (ledger st)) \<and>
        checkpoint_signed ext (proof_sk st) cp \<and>
        verify_inclusion (sha256 ext) (leaf_hash (sha256 ext) entry) index (cp_size cp) path
          (root (sha256 ext) (ledger st)))"

lemma entry_logged_simps [simp]:
  "ledger (entry_logged ext st entry) = fst (log_append (sha256 ext) (ledger st) entry)"
  "counter (entry_logged ext st entry) = counter st"
  "proof_sk (entry_logged ext st entry) = proof_sk st"
  "channel_sk (entry_logged ext st entry) = channel_sk st"
  "channel_pk (entry_logged ext st entry) = channel_pk st"
  "enclave_policy (entry_logged ext st entry) = enclave_policy st"
  by (simp_all add: entry_logged_def)

lemma append_proof_cases:
  obtains (unserializable) e where "try_canonical_json ext (proof_to_value ext pf) = Inl e"
      "append_proof ext now st pf = (Some (Inl e), st)"
  | (appended) entry where "try_canonical_json ext (proof_to_value ext pf) = Inr entry"
      "current_checkpoint ext now (entry_logged ext st entry) = None"
      "append_proof ext now st pf = (None, entry_logged ext st entry)"
  | (receipt) entry receipt where "try_canonical_json ext (proof_to_value ext pf) = Inr entry"
      "current_checkpoint ext now (entry_logged ext st entry) \<noteq> None"
      "receipt_for ext (entry_logged ext st entry) entry receipt"
      "append_proof ext now st pf = (Some (Inr receipt), entry_logged ext st entry)"
proof (cases "try_canonical_json ext (proof_to_value ext pf)")
  case (Inl e)
  then show ?thesis by (intro unserializable) (simp_all add: append_proof_def)
next
  case (Inr entry)
  let ?sha = "sha256 ext" and ?st = "entry_logged ext st entry" and ?n = "log_size (ledger st)"
  obtain leaf path where lp: "leaf_at (ledger ?st) ?n = Some leaf"
    "inclusion_path ?sha (ledger ?st) ?n = Some (Some path)"
    "verify_inclusion ?sha leaf ?n (log_size (ledger ?st)) path (root ?sha (ledger ?st))"
    using tlog.receipt_ok [of ?sha "ledger st" entry "ledger ?st" ?n]
    by (force simp: log_append_def log_size_def Let_def)
  then have leaf: "leaf = leaf_hash ?sha entry"
    by (simp add: leaf_at_def log_size_def nth_append)
  have size: "log_size (ledger ?st) = Suc ?n"
    by (simp add: log_size_def)
  have step: "append_proof ext now st pf =
      (case current_checkpoint ext now ?st of
         None \<Rightarrow> (None, ?st)
       | Some cp \<Rightarrow> (Some (Inr (receipt_value ext ?n leaf path cp)), ?st))"
    using Inr lp(1,2)
    by (simp add: append_proof_def entry_logged_def Let_def log_append_def log_size_def split: option.split)
  show ?thesis
  proof (cases "current_checkpoint ext now ?st")
    case None
    with step Inr show ?thesis by (intro appended) simp_all
  next
    case (Some cp)
    have "receipt_for ext ?st entry (receipt_value ext ?n leaf path cp)"
      unfolding receipt_for_def
      using checkpoint_fields [OF Some] sign_checkpoint_signed [OF Some] lp(3) leaf size
      by (intro exI [of _ ?n] exI [of _ path] exI [of _ cp]) simp
    with step Inr Some show ?thesis by (intro receipt) simp_all
  qed
qed

section \<open>Sessions\<close>

text \<open>\<open>signed_by\<close>: the proof carries a signature of its statement's canonical bytes under the key.\<close>

definition signed_by :: "externals \<Rightarrow> bytes \<Rightarrow> signed_proof \<Rightarrow> bool" where
  "signed_by ext sk pf \<longleftrightarrow>
     (\<exists>msg. try_canonical_json ext (statement_to_value ext (statement pf)) = Inr msg \<and>
        signature_b64 pf = b64_encode ext (ed25519_sign ext sk msg))"

lemma sign_proof_Inr:
  "sign_proof ext st stmt = Inr pf \<Longrightarrow> statement pf = stmt \<and> signed_by ext (proof_sk st) pf"
  by (auto simp: sign_proof_def signed_by_def result_iff Let_def)

lemma healthy_sign: "healthy ext io \<Longrightarrow> \<exists>pf. sign_proof ext st stmt = Inr pf"
  using healthy_canonical [of ext io "statement_to_value ext stmt"] by (auto simp: sign_proof_def Let_def)

lemma emit_proof_cases:
  obtains (refused) e where "emit_proof ext io st stmt = (Some (Inl e), st)" "\<not> healthy ext io"
  | (panicked) pf entry where "emit_proof ext io st stmt = (None, entry_logged ext st entry)"
      "\<not> healthy ext io" "statement pf = stmt" "signed_by ext (proof_sk st) pf"
      "try_canonical_json ext (proof_to_value ext pf) = Inr entry"
  | (emitted) pf entry receipt where
      "emit_proof ext io st stmt = (Some (Inr (pf, receipt)), entry_logged ext st entry)"
      "statement pf = stmt" "signed_by ext (proof_sk st) pf"
      "try_canonical_json ext (proof_to_value ext pf) = Inr entry"
      "receipt_for ext (entry_logged ext st entry) entry receipt"
proof (cases "sign_proof ext st stmt")
  case (Inl e)
  with healthy_sign [of ext io st stmt] show ?thesis
    by (intro refused) (auto simp: emit_proof_def)
next
  case (Inr pf)
  note pf = this sign_proof_Inr [OF this]
  show ?thesis
  proof (cases rule: append_proof_cases [of ext pf "now_secs io 1" st])
    case (unserializable e)
    with healthy_canonical [of ext io "proof_to_value ext pf"] pf show ?thesis
      by (intro refused) (auto simp: emit_proof_def)
  next
    case (appended entry)
    then have "\<not> healthy ext io" using healthy_checkpoint by (metis option.distinct(1))
    with appended pf show ?thesis by (intro panicked) (simp_all add: emit_proof_def)
  next
    case (receipt entry receipt)
    with pf show ?thesis by (intro emitted) (auto simp: emit_proof_def)
  qed
qed

text \<open>One finished session: the proof's counter is the one the session drew, and the ledger has grown
  by exactly the signed proof, whose receipt verifies.\<close>

definition session_done ::
  "externals \<Rightarrow> enclave_state \<Rightarrow> signed_proof \<Rightarrow> json \<Rightarrow> enclave_state \<Rightarrow> bool"
where
  "session_done ext st pf receipt st' \<longleftrightarrow>
     (\<exists>entry. try_canonical_json ext (proof_to_value ext pf) = Inr entry \<and>
        st' = entry_logged ext (st\<lparr>counter := counter st + 1\<rparr>) entry \<and>
        receipt_for ext st' entry receipt) \<and>
     signed_by ext (proof_sk st) pf \<and> ps_counter (statement pf) = counter st + 1"

lemma emit_session:
  assumes "emit_proof ext io (st\<lparr>counter := counter st + 1\<rparr>) stmt = (Some (Inr (pf, receipt)), st')"
    and "ps_counter stmt = counter st + 1"
  shows "session_done ext st pf receipt st' \<and> statement pf = stmt"
  using assms by (cases rule: emit_proof_cases [of ext io "st\<lparr>counter := counter st + 1\<rparr>" stmt])
    (auto simp: session_done_def)

lemma answer_Inr:
  "answer f r = (Some (Inr v), st') \<longleftrightarrow>
   (\<exists>pf receipt. r = (Some (Inr (pf, receipt)), st') \<and> v = f pf receipt)"
proof (cases r)
  case (Pair a s)
  then show ?thesis by (cases a; cases "the a") (auto simp: answer_def)
qed

lemma fail_session:
  assumes "fail ext io st code commitment tenant processor wiped = (Some (Inr v), st')"
  shows "\<exists>stamp pf receipt. take_stamp ext io = Some stamp \<and>
    statement pf = failure_statement ext stamp st (counter st + 1) code commitment tenant processor wiped \<and>
    v = failure_value ext io code pf receipt \<and> session_done ext st pf receipt st'"
proof -
  let ?st = "st\<lparr>counter := counter st + 1\<rparr>"
  from assms obtain stamp pf receipt where stamp: "take_stamp ext io = Some stamp"
    and emit: "emit_proof ext io ?st (failure_statement ext stamp ?st (counter st + 1) code commitment tenant
      processor wiped) = (Some (Inr (pf, receipt)), st')" and v: "v = failure_value ext io code pf receipt"
    by (auto simp: fail_def log_failure_def next_counter_def answer_Inr split: option.splits)
  have "failure_statement ext stamp ?st n code commitment tenant processor wiped =
      failure_statement ext stamp st n code commitment tenant processor wiped" for n
    by (simp add: failure_statement_def policy_decision_value_def)
  with emit_session [OF emit] stamp v show ?thesis by (auto simp: failure_statement_def)
qed

lemma served_session:
  assumes "process_and_delete ext io st body tenant = (Some (Inr v), st')"
    and "decide ext st body = Some (Served commitment processor response result_hash)"
  shows "\<exists>stamp pf receipt. take_stamp ext io = Some stamp \<and>
    statement pf = success_statement ext stamp st (counter st + 1) commitment tenant processor response
      result_hash \<and>
    v = success_value ext io response pf receipt \<and> session_done ext st pf receipt st'"
proof -
  let ?st = "st\<lparr>counter := counter st + 1\<rparr>"
  from assms obtain stamp pf receipt where stamp: "take_stamp ext io = Some stamp"
    and emit: "emit_proof ext io ?st (success_statement ext stamp ?st (counter st + 1) commitment tenant
      processor response result_hash) = (Some (Inr (pf, receipt)), st')"
    and v: "v = success_value ext io response pf receipt"
    by (auto simp: process_and_delete_def log_success_def next_counter_def answer_Inr split: option.splits)
  have "success_statement ext stamp ?st n commitment tenant processor response result_hash =
      success_statement ext stamp st n commitment tenant processor response result_hash" for n
    by (simp add: success_statement_def policy_decision_value_def)
  with emit_session [OF emit] stamp v show ?thesis by (auto simp: success_statement_def)
qed

text \<open>A session whose clock or random source fails after it drew its counter: the task panics, nothing is
  logged, and the counter is spent.\<close>

lemma stampless_session:
  assumes "decide ext st body = Some d" and "\<And>e. d \<noteq> Aborted e" and "take_stamp ext io = None"
  shows "process_and_delete ext io st body tenant = (None, st\<lparr>counter := counter st + 1\<rparr>)"
  using assms by (cases d) (auto simp: process_and_delete_def fail_def log_failure_def log_success_def next_counter_def)

section \<open>The dispatcher and one connection as one equation\<close>

lemma dispatch_eq:
  "dispatch ext io st env =
     (let body = (case b64_decode ext (env_body_b64 env) of None \<Rightarrow> [] | Some b \<Rightarrow> b);
          path = env_path env in
      if env_method env = ''GET'' \<and> path = ''/v1/attestation'' then
        (map_option (\<lambda>r. case r of
             Inr att \<Rightarrow> json_resp ext 200 (attestation_json att)
           | Inl e \<Rightarrow> error_resp ext 500 (anyhow_debug ext e)) (publish_attestation ext io st), st)
      else if env_method env = ''POST'' \<and> path = ''/v1/gateway/inference'' then
        (let (r, st) = process_and_delete ext io st body (tenant_of env) in
         (map_option (\<lambda>r. case r of
             Inr v \<Rightarrow> json_resp ext 200 v
           | Inl e \<Rightarrow> json_resp ext 500
               (obj ext [(''ok'', JBool False), (''error'', JString (anyhow_debug ext e))])) r, st))
      else if env_method env = ''GET'' \<and> path = ''/v1/ledger/root'' then
        (map_option (json_resp ext 200) (ledger_root ext io st), st)
      else if env_method env = ''GET'' \<and> prefix proof_route path then
        (case parse_usize (trim_start_matches proof_route path) of
           Some idx \<Rightarrow> (map_option (\<lambda>r. case r of
               Some v \<Rightarrow> json_resp ext 200 v
             | None \<Rightarrow> error_resp ext 404 ''ledger_index_not_found'') (ledger_proof ext io st idx), st)
         | None \<Rightarrow> (Some (error_resp ext 400 ''invalid_ledger_index''), st))
      else if env_method env = ''GET'' \<and> prefix consistency_route path then
        (case parse_usize (trim_start_matches consistency_route path) of
           Some n \<Rightarrow> (map_option (\<lambda>r. case r of
               Some v \<Rightarrow> json_resp ext 200 v
             | None \<Rightarrow> error_resp ext 400 ''invalid_tree_size'') (ledger_consistency ext io st n), st)
         | None \<Rightarrow> (Some (error_resp ext 400 ''invalid_tree_size''), st))
      else
        (Some (json_resp ext 404 (obj ext
           [(''error'', JString ''not found''), (''method'', JString (env_method env)),
            (''path'', JString path)])), st))"
proof -
  note defs = dispatch_def inference_route_def answer_query_def request_body_def inference_answer_def error_resp_def
    Let_def option.map_comp o_def
  have answers: "map_option (\<lambda>r. case r of (status, v) \<Rightarrow> json_resp ext status v)
        (map_option (\<lambda>r. case r of Some v \<Rightarrow> (200, v) | None \<Rightarrow> (status, w)) q) =
      map_option (\<lambda>r. case r of Some v \<Rightarrow> json_resp ext 200 v | None \<Rightarrow> json_resp ext status w) q"
    "map_option (\<lambda>r. case r of (status, v) \<Rightarrow> json_resp ext status v)
        (map_option (\<lambda>r. case r of Inl e \<Rightarrow> (status, g e) | Inr a \<Rightarrow> (200, f a)) p) =
      map_option (\<lambda>r. case r of Inl e \<Rightarrow> json_resp ext status (g e) | Inr a \<Rightarrow> json_resp ext 200 (f a)) p"
    "map_option (\<lambda>r. case r of (status, v) \<Rightarrow> json_resp ext status v) (map_option (Pair status) z) =
      map_option (json_resp ext status) z"
    for status w q f g z and p :: "(string + attestation_out) option"
    by (auto simp: option.map_comp o_def split: option.split sum.split intro!: option.map_cong0)
  consider "env_method env = ''POST''" | "env_method env = ''GET''"
    | "env_method env \<noteq> ''GET''" "env_method env \<noteq> ''POST''" by fastforce
  then show ?thesis
  proof cases
    case 1
    then show ?thesis
      by (auto simp: defs split: prod.split sum.split intro!: option.map_cong0)
  next
    case 2
    then show ?thesis
      by (simp add: dispatch_def inference_route_def answer_query_def error_resp_def answers Let_def
          split: option.split)
  next
    case 3
    then show ?thesis by (simp add: defs)
  qed
qed

lemma handle_conn_eq:
  "handle_conn ext io st stream =
     (case read_framed stream of
        Inl e \<Rightarrow> (Some (Inl (Conn_frame e)), st)
      | Inr (frame, _) \<Rightarrow>
     (case parse_envelope ext frame of
        None \<Rightarrow> (Some (Inl (Conn_json (json_error ext))), st)
      | Some env \<Rightarrow>
     (case dispatch ext io st env of
        (None, st) \<Rightarrow> (None, st)
      | (Some resp, st) \<Rightarrow>
     (case json_to_vec ext (response_json resp) of
        None \<Rightarrow> (Some (Inl (Conn_json (json_error ext))), st)
      | Some resp_bytes \<Rightarrow> (Some (Inr (write_framed [] resp_bytes)), st)))))"
  by (simp add: handle_conn_def receive_def respond_def ok_or_def rbind_def Let_def
      split: option.split sum.split prod.split)

end
