(* ===== verification/Enclave_Session.thy ===== *)
theory Enclave_Session
  imports Enclave_Lemmas
begin

text \<open>
  What a session decides and when it returns: the stages of \<open>decide\<close>, the codes it refuses with, and the
  handler's result under healthy surroundings.
\<close>

section \<open>What a session decides\<close>

text \<open>The stages of \<open>decide\<close>, one equation each.\<close>

lemma decide_malformed:
  "parse_request ext body = None \<Longrightarrow> decide ext st body = Some (Refused ''malformed_request'' [] ''gateway'' False)"
  by (simp add: decide_def decide_plaintext_def)

lemma decide_unopened:
  "parse_request ext body = Some req \<Longrightarrow> open_channel ext st req = Inl code \<Longrightarrow>
   decide ext st body = Some (Refused code (req_commitment_hex req) (requested_processor req) False)"
  by (simp add: decide_def decide_plaintext_def)

lemma decide_uncommitted:
  "parse_request ext body = Some req \<Longrightarrow> open_channel ext st req = Inr plaintext \<Longrightarrow>
   check_commitment ext req plaintext = Inl code \<Longrightarrow>
   decide ext st body = Some (Refused code (req_commitment_hex req) (requested_processor req) True)"
  by (simp add: decide_def decide_plaintext_def)

lemma decide_denied:
  "parse_request ext body = Some req \<Longrightarrow> open_channel ext st req = Inr plaintext \<Longrightarrow>
   check_commitment ext req plaintext = Inr u \<Longrightarrow>
   evaluate (enclave_policy st) plaintext (requested_processor req) = Inl code \<Longrightarrow>
   decide ext st body = Some (Refused code (req_commitment_hex req) (requested_processor req) True)"
  by (simp add: decide_def decide_plaintext_def)

lemma decide_admitted:
  "parse_request ext body = Some req \<Longrightarrow> open_channel ext st req = Inr plaintext \<Longrightarrow>
   check_commitment ext req plaintext = Inr u \<Longrightarrow>
   evaluate (enclave_policy st) plaintext (requested_processor req) = Inr w \<Longrightarrow>
   decide ext st body =
     Option.bind (call_upstream ext plaintext) (\<lambda>r. Some (case r of
        Inl _ \<Rightarrow> Refused ''upstream_failed'' (req_commitment_hex req) (requested_processor req) True
      | Inr response \<Rightarrow> (case json_to_vec ext response of
          None \<Rightarrow> Aborted (json_error ext)
        | Some bytes \<Rightarrow> Served (req_commitment_hex req) (requested_processor req) response
            (hex_encode ext (sha256 ext bytes)))))"
  by (simp add: decide_def decide_plaintext_def Let_def split: option.split sum.split)

lemmas decide_stages = decide_malformed decide_unopened decide_uncommitted decide_denied decide_admitted

lemma stages:
  obtains (malformed) "parse_request ext body = None"
  | (unopened) req code where "parse_request ext body = Some req" "open_channel ext st req = Inl code"
  | (uncommitted) req plaintext code where "parse_request ext body = Some req"
      "open_channel ext st req = Inr plaintext" "check_commitment ext req plaintext = Inl code"
  | (denied) req plaintext code where "parse_request ext body = Some req"
      "open_channel ext st req = Inr plaintext" "check_commitment ext req plaintext = Inr ()"
      "evaluate (enclave_policy st) plaintext (requested_processor req) = Inl code"
  | (admitted) req plaintext where "parse_request ext body = Some req"
      "open_channel ext st req = Inr plaintext" "check_commitment ext req plaintext = Inr ()"
      "evaluate (enclave_policy st) plaintext (requested_processor req) = Inr ()"
proof (cases "parse_request ext body")
  case req: (Some req)
  show ?thesis
  proof (cases "open_channel ext st req")
    case (Inl code)
    with req show ?thesis by (rule unopened)
  next
    case pt: (Inr plaintext)
    show ?thesis
    proof (cases "check_commitment ext req plaintext")
      case (Inl code)
      with req pt show ?thesis by (rule uncommitted)
    next
      case (Inr u)
      then have checked: "check_commitment ext req plaintext = Inr ()" by simp
      show ?thesis
      proof (cases "evaluate (enclave_policy st) plaintext (requested_processor req)")
        case (Inl code)
        with req pt checked show ?thesis by (rule denied)
      next
        case (Inr w)
        then have "evaluate (enclave_policy st) plaintext (requested_processor req) = Inr ()" by simp
        with req pt checked show ?thesis by (rule admitted)
      qed
    qed
  qed
qed (rule malformed)

lemma upstream_ok: "call_upstream ext plaintext = Some r \<Longrightarrow> \<exists>v. r = Inr v"
  by (auto simp: call_upstream_def Let_def split: if_splits)

lemma healthy_writer: "healthy ext io \<Longrightarrow> \<exists>b. json_to_vec ext v = Some b"
  by (auto simp: healthy_def)

lemma decide_healthy: "healthy ext io \<Longrightarrow> \<exists>d. decide ext st body = Some d \<and> (\<forall>e. d \<noteq> Aborted e)"
proof (cases rule: stages [where ext = ext and body = body and st = st])
  case (admitted req plaintext)
  assume h: "healthy ext io"
  then obtain v where "call_upstream ext plaintext = Some (Inr v)" using healthy_upstream by blast
  moreover obtain b where "json_to_vec ext v = Some b" using healthy_writer [OF h] by blast
  ultimately show ?thesis using decide_admitted [OF admitted] by simp
qed (simp_all add: decide_stages)

lemma evaluate_codes:
  "evaluate p plaintext processor = Inl code \<Longrightarrow>
   code \<in> {''processor_not_allowed'', ''input_too_large'', ''restricted_marker'', ''pii_detected''}"
  by (auto simp: evaluate_def split: if_splits)

lemma open_channel_codes:
  "open_channel ext st req = Inl code \<Longrightarrow> code \<in> {''channel_decrypt_failed'', ''channel_key_derivation_failed''}"
  by (auto simp: open_channel_def result_iff Let_def)

lemma check_commitment_codes:
  "check_commitment ext req plaintext = Inl code \<Longrightarrow> code \<in> {''invalid_commitment_salt'', ''commitment_mismatch''}"
  by (auto simp: check_commitment_def result_iff Let_def)

lemma decide_refused:
  assumes "decide ext st body = Some (Refused code commitment processor wiped)"
  shows "(wiped \<longleftrightarrow> (\<exists>req plaintext. parse_request ext body = Some req \<and> open_channel ext st req = Inr plaintext)) \<and>
    code \<in> {''malformed_request'', ''channel_decrypt_failed'', ''channel_key_derivation_failed'',
      ''invalid_commitment_salt'', ''commitment_mismatch'', ''processor_not_allowed'', ''input_too_large'',
      ''restricted_marker'', ''pii_detected''}"
proof (cases rule: stages [where ext = ext and body = body and st = st])
  case malformed
  with assms show ?thesis by (auto simp: decide_malformed)
next
  case (unopened req c)
  with assms open_channel_codes [OF unopened(2)] show ?thesis by (auto simp: decide_unopened [OF unopened])
next
  case (uncommitted req plaintext c)
  with assms check_commitment_codes [OF uncommitted(3)] show ?thesis
    by (auto simp: decide_uncommitted [OF uncommitted])
next
  case (denied req plaintext c)
  with assms evaluate_codes [OF denied(4)] show ?thesis by (auto simp: decide_denied [OF denied])
next
  case (admitted req plaintext)
  with assms upstream_ok [of ext plaintext] show ?thesis
    by (auto simp: decide_admitted [OF admitted] bind_eq_Some_conv split: option.splits)
qed

text \<open>The check a refusal comes from: the parser, the channel, the commitment or the policy.\<close>

definition failure_cause :: "externals \<Rightarrow> enclave_state \<Rightarrow> bytes \<Rightarrow> string \<Rightarrow> bool" where
  "failure_cause ext st body code \<longleftrightarrow>
     (case parse_request ext body of
        None \<Rightarrow> code = ''malformed_request''
      | Some req \<Rightarrow>
     (case open_channel ext st req of
        Inl c \<Rightarrow> code = c
      | Inr plaintext \<Rightarrow>
     (case check_commitment ext req plaintext of
        Inl c \<Rightarrow> code = c
      | Inr _ \<Rightarrow> evaluate (enclave_policy st) plaintext (requested_processor req) = Inl code)))"

lemma decide_cause:
  assumes "decide ext st body = Some (Refused code commitment processor wiped)"
  shows "failure_cause ext st body code"
proof (cases rule: stages [where ext = ext and body = body and st = st])
  case (admitted req plaintext)
  with assms upstream_ok [of ext plaintext] show ?thesis
    by (auto simp: decide_admitted [OF admitted] bind_eq_Some_conv split: option.splits)
qed (use assms in \<open>auto simp: decide_stages failure_cause_def\<close>)

lemma decide_served:
  assumes "decide ext st body = Some (Served commitment processor response result_hash)"
  shows "\<exists>req plaintext salt bytes. parse_request ext body = Some req \<and>
    open_channel ext st req = Inr plaintext \<and> hex_decode ext (commitment_salt_hex req) = Some salt \<and>
    hex_encode ext (sha256 ext (plaintext @ salt @ as_bytes (commitment_context req))) = commitment \<and>
    evaluate (enclave_policy st) plaintext processor = Inr () \<and>
    json_to_vec ext response = Some bytes \<and> result_hash = hex_encode ext (sha256 ext bytes)"
proof (cases rule: stages [where ext = ext and body = body and st = st])
  case (admitted req plaintext)
  from admitted(3) obtain salt where salt: "hex_decode ext (commitment_salt_hex req) = Some salt"
    "hex_encode ext (sha256 ext (plaintext @ salt @ as_bytes (commitment_context req))) = req_commitment_hex req"
    by (auto simp: check_commitment_def result_iff Let_def)
  from assms obtain r where "call_upstream ext plaintext = Some r"
    by (auto simp: decide_admitted [OF admitted] bind_eq_Some_conv)
  then obtain v where v: "call_upstream ext plaintext = Some (Inr v)" using upstream_ok by blast
  with assms obtain bytes where "commitment = req_commitment_hex req" "processor = requested_processor req"
    "json_to_vec ext response = Some bytes" "result_hash = hex_encode ext (sha256 ext bytes)"
    by (auto simp: decide_admitted [OF admitted] split: option.splits)
  with admitted salt show ?thesis by blast
qed (use assms in \<open>simp_all add: decide_stages\<close>)

lemma process_cases:
  assumes "process_and_delete ext io st body tenant = (Some (Inr v), st')"
  obtains (failed) code commitment processor wiped where
      "decide ext st body = Some (Refused code commitment processor wiped)"
      "fail ext io st code commitment tenant processor wiped = (Some (Inr v), st')"
  | (served) commitment processor response result_hash where
      "decide ext st body = Some (Served commitment processor response result_hash)"
  using assms that by (cases "decide ext st body"; cases "the (decide ext st body)")
    (auto simp: process_and_delete_def)

lemma get_ok [simp]:
  "object_map (map_insert ext) \<Longrightarrow> json_get (success_value ext io r pf receipt) ''ok'' = Some (JBool True)"
  "object_map (map_insert ext) \<Longrightarrow> json_get (failure_value ext io c pf receipt) ''ok'' = Some (JBool False)"
  by (simp_all add: success_value_def failure_value_def json_get_obj)

lemma get_proof [simp]:
  "object_map (map_insert ext) \<Longrightarrow> json_get (success_value ext io r pf receipt) ''proof'' = Some (proof_to_value ext pf)"
  "object_map (map_insert ext) \<Longrightarrow> json_get (failure_value ext io c pf receipt) ''proof'' = Some (proof_to_value ext pf)"
  "object_map (map_insert ext) \<Longrightarrow> json_get (success_value ext io r pf receipt) ''receipt'' = Some receipt"
  "object_map (map_insert ext) \<Longrightarrow> json_get (failure_value ext io c pf receipt) ''receipt'' = Some receipt"
  "object_map (map_insert ext) \<Longrightarrow> json_get (success_value ext io r pf receipt) ''model_response'' = Some r"
  "object_map (map_insert ext) \<Longrightarrow> json_get (failure_value ext io c pf receipt) ''error'' = Some (JString c)"
  by (simp_all add: success_value_def failure_value_def json_get_obj)

lemma emit_healthy:
  "healthy ext io \<Longrightarrow> \<exists>pf receipt st'. emit_proof ext io st stmt = (Some (Inr (pf, receipt)), st')"
  by (cases rule: emit_proof_cases [of ext io st stmt]) auto

lemma answer_healthy:
  "healthy ext io \<Longrightarrow> \<exists>v st'. answer f (emit_proof ext io st stmt) = (Some (Inr v), st')"
  using emit_healthy [of ext io st stmt] by (auto simp: answer_Inr)

lemma fail_healthy:
  "healthy ext io \<Longrightarrow> \<exists>v st'. fail ext io st code commitment tenant processor wiped = (Some (Inr v), st')"
  using healthy_stamp [of ext io] by (auto simp: fail_def log_failure_def next_counter_def answer_healthy)

lemma process_healthy: "healthy ext io \<Longrightarrow> \<exists>v st'. process_and_delete ext io st body tenant = (Some (Inr v), st')"
proof -
  assume h: "healthy ext io"
  then obtain d where d: "decide ext st body = Some d" "\<And>e. d \<noteq> Aborted e" using decide_healthy by blast
  show ?thesis
  proof (cases d)
    case (Served commitment processor response result_hash)
    with d(1) h healthy_stamp [of ext io]
    show ?thesis by (auto simp: process_and_delete_def log_success_def next_counter_def answer_healthy)
  qed (use d h fail_healthy in \<open>simp_all add: process_and_delete_def\<close>)
qed

lemma session_cases:
  assumes "process_and_delete ext io st body tenant = (Some (Inr v), st')"
  obtains pf receipt where "session_done ext st pf receipt st'" and "tenant_id (statement pf) = tenant"
    and "object_map (map_insert ext) \<Longrightarrow> json_get v ''ok'' = Some (JBool (success (statement pf))) \<and>
      json_get v ''proof'' = Some (proof_to_value ext pf) \<and> json_get v ''receipt'' = Some receipt"
  using assms
proof (cases rule: process_cases)
  case (failed code commitment processor wiped)
  from fail_session [OF failed(2)] show ?thesis
    by (elim exE conjE) (rule that, auto simp: failure_statement_def)
next
  case (served commitment processor response result_hash)
  from served_session [OF assms served] show ?thesis
    by (elim exE conjE) (rule that, auto simp: success_statement_def)
qed

end
