(* ===== verification/Enclave_Props.thy ===== *)
theory Enclave_Props
  imports Enclave_Session
begin

text \<open>
  The properties of the enclave binary taken one request at a time: every session ends in one signed,
  logged proof, what a successful and a failed proof certify, the answers of the ledger routes, the
  totality of the dispatcher, the key binding of the attestation and the state after boot.
\<close>

section \<open>A concrete enclave\<close>

definition demo_state :: enclave_state where
  "demo_state = \<lparr>channel_sk = replicate 32 1, channel_pk = replicate 32 1, proof_sk = replicate 32 2,
     counter = 0, ledger = new_log, enclave_policy = default_v1, nsm_fd = 3\<rparr>"

definition demo_io :: request_io where
  "demo_io = \<lparr>io_system_time = (\<lambda>_. 1000000000000), io_random = (\<lambda>i. Some (\<lambda>_. word_of_nat i)),
     io_elapsed_us = 5, io_nsm = (\<lambda>_ _. AttestationDocument [9])\<rparr>"

definition demo_request :: inference_request where
  "demo_request = \<lparr>client_pub_hex = copy_text (replicate 32 2), ciphertext_hex = ''hello'',
     nonce_hex = copy_text (replicate 24 3), req_commitment_hex = copy_text (replicate 32 0x68),
     commitment_salt_hex = ''s'', commitment_context = ''c'', req_processor_id = None\<rparr>"

definition demo_gateway :: externals where
  "demo_gateway = demo_ext\<lparr>parse_request := (\<lambda>b. if b = [] then None else Some demo_request)\<rparr>"

lemma demo_gateway_simps [simp]:
  "map_insert demo_gateway = btree_insert" "hex_encode demo_gateway = copy_text"
  "sha256 demo_gateway x = replicate 32 (case x of [] \<Rightarrow> 0 | b # _ \<Rightarrow> b)"
  "parse_request demo_gateway b = (if b = [] then None else Some demo_request)"
  "json_to_vec demo_gateway v = Some [0x7B, 0x7D]"
  by (simp_all add: demo_gateway_def demo_ext_def)

lemma demo_healthy [simp]: "healthy demo_gateway demo_io"
  by (simp add: healthy_def demo_io_def now_secs_def)

lemma demo_opens: "open_channel demo_gateway demo_state demo_request = Inr (as_bytes ''hello'')"
  by (simp add: open_channel_def demo_gateway_def demo_ext_def demo_request_def demo_state_def Let_def)

lemma demo_admits:
  "check_commitment demo_gateway demo_request (as_bytes ''hello'') = Inr ()"
  "evaluate (enclave_policy demo_state) (as_bytes ''hello'') (requested_processor demo_request) = Inr ()"
   apply (simp add: check_commitment_def demo_gateway_def demo_ext_def demo_request_def as_bytes_def Let_def)
  apply (simp add: evaluate_def demo_state_def default_v1_def requested_processor_def demo_request_def
      as_bytes_def contains_def windows_def looks_like_ssn_def looks_like_pan_def is_ascii_digit_def)
  done

lemma demo_served: "\<exists>r h. decide demo_gateway demo_state [1] =
    Some (Served (copy_text (replicate 32 0x68)) ''gateway'' r h)"
  using decide_admitted [of demo_gateway "[1]" demo_request demo_state "as_bytes ''hello''" "()" "()"]
    demo_opens demo_admits healthy_upstream [OF demo_healthy, of "as_bytes ''hello''"]
  by (auto simp: demo_request_def requested_processor_def)

section \<open>Properties of a session\<close>

text \<open>C14. Every session emits a signed proof, on success and on failure alike: whatever the body of an
  inference request is, the handler returns an object with a proof and a receipt, the proof states the
  tenant and the counter the session drew and carries a signature over its canonical statement, the
  ledger has grown by exactly that proof, and the receipt's audit path verifies for it under the signed
  current head.\<close>

theorem every_session_emits_proof:
  assumes "healthy ext io" and o: "object_map (map_insert ext)"
  shows "\<exists>v pf receipt st'. process_and_delete ext io st body tenant = (Some (Inr v), st') \<and>
    json_get v ''ok'' = Some (JBool (success (statement pf))) \<and>
    json_get v ''proof'' = Some (proof_to_value ext pf) \<and> json_get v ''receipt'' = Some receipt \<and>
    tenant_id (statement pf) = tenant \<and> session_done ext st pf receipt st'"
proof -
  obtain v st' where run: "process_and_delete ext io st body tenant = (Some (Inr v), st')"
    using process_healthy [OF assms(1)] by blast
  obtain pf receipt where "session_done ext st pf receipt st'" "tenant_id (statement pf) = tenant"
    "json_get v ''ok'' = Some (JBool (success (statement pf)))"
    "json_get v ''proof'' = Some (proof_to_value ext pf)" "json_get v ''receipt'' = Some receipt"
    using session_cases [OF run] o by metis
  with run show ?thesis by blast
qed

theorem every_session_emits_proof_witness:
  "\<exists>v pf receipt st'. process_and_delete demo_gateway demo_io demo_state [] ''t'' = (Some (Inr v), st') \<and>
    json_get v ''ok'' = Some (JBool (success (statement pf))) \<and>
    json_get v ''proof'' = Some (proof_to_value demo_gateway pf) \<and> json_get v ''receipt'' = Some receipt \<and>
    tenant_id (statement pf) = ''t'' \<and> session_done demo_gateway demo_state pf receipt st'"
  by (rule every_session_emits_proof) simp_all

text \<open>C16. What a success certifies: if the handler answers \<open>ok: true\<close>, the request decrypted under the
  channel key, the commitment it named is the digest of the plaintext, salt and context, the policy in
  force allowed that plaintext for the processor named in the proof, and the proof states success, the
  digest of the response that is returned, an allowing decision with the policy's hash, and that the
  input was wiped.\<close>

theorem success_certifies:
  assumes "process_and_delete ext io st body tenant = (Some (Inr v), st')"
    and o: "object_map (map_insert ext)" and "json_get v ''ok'' = Some (JBool True)"
  shows "\<exists>req plaintext salt response bytes pf receipt. parse_request ext body = Some req \<and>
    open_channel ext st req = Inr plaintext \<and> hex_decode ext (commitment_salt_hex req) = Some salt \<and>
    commitment_hex (statement pf) =
      hex_encode ext (sha256 ext (plaintext @ salt @ as_bytes (commitment_context req))) \<and>
    evaluate (enclave_policy st) plaintext (processor_id (statement pf)) = Inr () \<and>
    json_get v ''model_response'' = Some response \<and> json_to_vec ext response = Some bytes \<and>
    success (statement pf) \<and> error_code (statement pf) = None \<and>
    result_hash_hex (statement pf) = Some (hex_encode ext (sha256 ext bytes)) \<and>
    json_get (policy_decision (statement pf)) ''allow'' = Some (JBool True) \<and>
    json_get (policy_decision (statement pf)) ''policy_hash'' = Some (JString (policy_hash ext (enclave_policy st))) \<and>
    json_get (zeroization_report (statement pf)) ''input_buffer_wiped'' = Some (JBool True) \<and>
    session_done ext st pf receipt st'"
  using assms(1)
proof (cases rule: process_cases)
  case (failed code commitment processor wiped)
  with fail_session [OF failed(2)] o assms(3) show ?thesis by auto
next
  case (served commitment processor response result_hash)
  obtain stamp pf receipt where pf: "statement pf = success_statement ext stamp st (counter st + 1) commitment
      tenant processor response result_hash"
    "v = success_value ext io response pf receipt" "session_done ext st pf receipt st'"
    using served_session [OF assms(1) served] by blast
  obtain req plaintext salt bytes where "parse_request ext body = Some req" "open_channel ext st req = Inr plaintext"
    "hex_decode ext (commitment_salt_hex req) = Some salt"
    "hex_encode ext (sha256 ext (plaintext @ salt @ as_bytes (commitment_context req))) = commitment"
    "evaluate (enclave_policy st) plaintext processor = Inr ()"
    "json_to_vec ext response = Some bytes" "result_hash = hex_encode ext (sha256 ext bytes)"
    using decide_served [OF served] by blast
  with pf o show ?thesis
    by (intro exI [of _ req] exI [of _ plaintext] exI [of _ salt] exI [of _ response] exI [of _ bytes]
        exI [of _ pf] exI [of _ receipt])
      (simp add: success_statement_def policy_decision_value_def zeroization_value_def json_get_obj)
qed

lemma demo_run:
  obtains v st' where "process_and_delete demo_gateway demo_io demo_state [1] ''t'' = (Some (Inr v), st')"
    "json_get v ''ok'' = Some (JBool True)"
proof -
  obtain v st' where run: "process_and_delete demo_gateway demo_io demo_state [1] ''t'' = (Some (Inr v), st')"
    using process_healthy [OF demo_healthy] by blast
  obtain r h where served: "decide demo_gateway demo_state [1] =
      Some (Served (copy_text (replicate 32 0x68)) ''gateway'' r h)" using demo_served by blast
  have "json_get v ''ok'' = Some (JBool True)" using served_session [OF run served] by auto
  with run that show thesis by blast
qed

theorem success_certifies_witness:
  "\<exists>v st' req plaintext salt response bytes pf receipt. parse_request demo_gateway [1] = Some req \<and>
    open_channel demo_gateway demo_state req = Inr plaintext \<and>
    hex_decode demo_gateway (commitment_salt_hex req) = Some salt \<and>
    commitment_hex (statement pf) =
      hex_encode demo_gateway (sha256 demo_gateway (plaintext @ salt @ as_bytes (commitment_context req))) \<and>
    evaluate (enclave_policy demo_state) plaintext (processor_id (statement pf)) = Inr () \<and>
    json_get v ''model_response'' = Some response \<and> json_to_vec demo_gateway response = Some bytes \<and>
    success (statement pf) \<and> error_code (statement pf) = None \<and>
    result_hash_hex (statement pf) = Some (hex_encode demo_gateway (sha256 demo_gateway bytes)) \<and>
    json_get (policy_decision (statement pf)) ''allow'' = Some (JBool True) \<and>
    json_get (policy_decision (statement pf)) ''policy_hash'' =
      Some (JString (policy_hash demo_gateway (enclave_policy demo_state))) \<and>
    json_get (zeroization_report (statement pf)) ''input_buffer_wiped'' = Some (JBool True) \<and>
    session_done demo_gateway demo_state pf receipt st'"
proof -
  obtain v st' where run: "process_and_delete demo_gateway demo_io demo_state [1] ''t'' = (Some (Inr v), st')"
    "json_get v ''ok'' = Some (JBool True)" using demo_run .
  show ?thesis by (intro exI [of _ v] exI [of _ st'], rule success_certifies [OF run(1) _ run(2)]) simp
qed

text \<open>C17. What a failure reports: if the handler answers \<open>ok: false\<close>, the proof states the failure with the code
  of the first check that refused the request, in the order parser, channel, commitment, policy, and for the
  policy with the reason \<open>evaluate\<close> gives; it is one of the nine codes below, and the answer's error is the
  same. The proof reports no result hash and a denying decision, and claims that the input was wiped exactly
  when there was a decrypted input.\<close>

theorem failure_reports:
  assumes "process_and_delete ext io st body tenant = (Some (Inr v), st')"
    and o: "object_map (map_insert ext)" and "json_get v ''ok'' = Some (JBool False)"
  shows "\<exists>code wiped pf receipt. json_get v ''error'' = Some (JString code) \<and>
    code \<in> {''malformed_request'', ''channel_decrypt_failed'', ''channel_key_derivation_failed'',
      ''invalid_commitment_salt'', ''commitment_mismatch'', ''processor_not_allowed'', ''input_too_large'',
      ''restricted_marker'', ''pii_detected''} \<and> failure_cause ext st body code \<and>
    \<not> success (statement pf) \<and> error_code (statement pf) = Some code \<and> result_hash_hex (statement pf) = None \<and>
    json_get (policy_decision (statement pf)) ''allow'' = Some (JBool False) \<and>
    json_get (zeroization_report (statement pf)) ''input_buffer_wiped'' = Some (JBool wiped) \<and>
    (wiped \<longleftrightarrow> (\<exists>req plaintext. parse_request ext body = Some req \<and> open_channel ext st req = Inr plaintext)) \<and>
    session_done ext st pf receipt st'"
  using assms(1)
proof (cases rule: process_cases)
  case (failed code commitment processor wiped)
  obtain stamp pf receipt where pf: "statement pf = failure_statement ext stamp st (counter st + 1) code commitment
      tenant processor wiped"
    "v = failure_value ext io code pf receipt" "session_done ext st pf receipt st'"
    using fail_session [OF failed(2)] by blast
  with decide_refused [OF failed(1)] decide_cause [OF failed(1)] o show ?thesis
    by (intro exI [of _ code] exI [of _ wiped] exI [of _ pf] exI [of _ receipt])
      (simp add: failure_statement_def policy_decision_value_def zeroization_value_def json_get_obj)
next
  case (served commitment processor response result_hash)
  with served_session [OF assms(1) served] o assms(3) show ?thesis by auto
qed

theorem failure_reports_witness:
  "\<exists>v st' code wiped pf receipt. json_get v ''error'' = Some (JString code) \<and>
    code \<in> {''malformed_request'', ''channel_decrypt_failed'', ''channel_key_derivation_failed'',
      ''invalid_commitment_salt'', ''commitment_mismatch'', ''processor_not_allowed'', ''input_too_large'',
      ''restricted_marker'', ''pii_detected''} \<and> failure_cause demo_gateway demo_state [] code \<and>
    \<not> success (statement pf) \<and> error_code (statement pf) = Some code \<and> result_hash_hex (statement pf) = None \<and>
    json_get (policy_decision (statement pf)) ''allow'' = Some (JBool False) \<and>
    json_get (zeroization_report (statement pf)) ''input_buffer_wiped'' = Some (JBool wiped) \<and>
    (wiped \<longleftrightarrow> (\<exists>req plaintext. parse_request demo_gateway [] = Some req \<and>
      open_channel demo_gateway demo_state req = Inr plaintext)) \<and>
    session_done demo_gateway demo_state pf receipt st'"
proof -
  obtain v st' where run: "process_and_delete demo_gateway demo_io demo_state [] ''t'' = (Some (Inr v), st')"
    using process_healthy [OF demo_healthy] by blast
  then have "fail demo_gateway demo_io demo_state ''malformed_request'' [] ''t'' ''gateway'' False = (Some (Inr v), st')"
    by (simp add: process_and_delete_def decide_malformed)
  then have "json_get v ''ok'' = Some (JBool False)" by (auto dest: fail_session)
  from failure_reports [OF run _ this] show ?thesis by (intro exI [of _ v] exI [of _ st']) simp
qed

section \<open>Properties of the routes\<close>

lemma trim_route:
  "trim_start_matches proof_route (proof_route @ show_nat n) = show_nat n"
  "trim_start_matches consistency_route (consistency_route @ show_nat n) = show_nat n"
proof -
  obtain d r where "show_nat n = digit_char d # r" "d < 10" using show_nat_first by blast
  moreover from \<open>d < 10\<close> have "digit_char d \<noteq> CHR ''/''"
    using digit_value_char [of d] by (auto simp: digit_value_def)
  ultimately have "\<not> prefix (CHR ''/'' # s) (show_nat n)" for s by simp
  then show "trim_start_matches proof_route (proof_route @ show_nat n) = show_nat n"
    "trim_start_matches consistency_route (consistency_route @ show_nat n) = show_nat n"
    by (metis list.distinct(1) trim_start_other trim_start_prefix)+
qed

lemma dispatch_proof_route:
  "env_method env = ''GET'' \<Longrightarrow> env_path env = proof_route @ show_nat n \<Longrightarrow> n < 2 ^ 64 \<Longrightarrow>
   dispatch ext io st env = (map_option (\<lambda>r. case r of
       Some v \<Rightarrow> json_resp ext 200 v
     | None \<Rightarrow> error_resp ext 404 ''ledger_index_not_found'') (ledger_proof ext io st n), st)"
  using trim_route(1) [of n] parse_usize_show [of n]
  by (simp add: dispatch_eq Let_def)

lemma dispatch_consistency_route:
  "env_method env = ''GET'' \<Longrightarrow> env_path env = consistency_route @ show_nat n \<Longrightarrow> n < 2 ^ 64 \<Longrightarrow>
   dispatch ext io st env = (map_option (\<lambda>r. case r of
       Some v \<Rightarrow> json_resp ext 200 v
     | None \<Rightarrow> error_resp ext 400 ''invalid_tree_size'') (ledger_consistency ext io st n), st)"
  using trim_route(2) [of n] parse_usize_show [of n]
  by (simp add: dispatch_eq Let_def)

text \<open>The inclusion route: \<open>GET /v1/ledger/proof/<idx>\<close> with a decimal index answers 200 with the leaf
  at that index, a path that verifies under the signed current head, and leaves the state alone; an
  index the ledger does not have is answered with 404.\<close>

lemma ledger_proof_answer:
  assumes h: "healthy ext io" and env: "env_method env = ''GET''"
    "env_path env = ''/v1/ledger/proof/'' @ show_nat idx" "idx < 2 ^ 64"
  shows "if idx < log_size (ledger st)
    then \<exists>leaf path cp. dispatch ext io st env = (Some (json_resp ext 200 (receipt_value ext idx leaf path cp)), st) \<and>
      leaf_at (ledger st) idx = Some leaf \<and> checkpoint_signed ext (proof_sk st) cp \<and>
      cp_size cp = log_size (ledger st) \<and> cp_root_hex cp = hex_encode ext (root (sha256 ext) (ledger st)) \<and>
      verify_inclusion (sha256 ext) leaf idx (cp_size cp) path (root (sha256 ext) (ledger st))
    else dispatch ext io st env = (Some (error_resp ext 404 ''ledger_index_not_found''), st)"
proof (cases "idx < log_size (ledger st)")
  case True
  obtain leaf path where lp: "leaf_at (ledger st) idx = Some leaf"
    "inclusion_path (sha256 ext) (ledger st) idx = Some (Some path)"
    "verify_inclusion (sha256 ext) leaf idx (log_size (ledger st)) path (root (sha256 ext) (ledger st))"
    using tlog.incl_ok [OF True] by blast
  obtain cp where cp: "current_checkpoint ext (now_secs io 0) st = Some cp"
    using healthy_checkpoint [OF h] by blast
  with lp have "ledger_proof ext io st idx = Some (Some (receipt_value ext idx leaf path cp))"
    by (simp add: ledger_proof_def)
  with dispatch_proof_route [OF env, of ext io st] lp checkpoint_fields [OF cp] sign_checkpoint_signed [OF cp]
  show ?thesis unfolding if_P [OF True] by (intro exI [of _ leaf] exI [of _ path] exI [of _ cp]) simp
next
  case False
  then have "ledger_proof ext io st idx = Some None"
    by (simp add: ledger_proof_def leaf_at_def log_size_def)
  with dispatch_proof_route [OF env, of ext io st] False show ?thesis by simp
qed

definition demo_get :: "string \<Rightarrow> vsock_envelope" where
  "demo_get path = \<lparr>env_method = ''GET'', env_path = path, env_headers = [], env_body_b64 = []\<rparr>"

text \<open>The consistency route: \<open>GET /v1/ledger/consistency/<size>\<close> answers 200 with two signed heads,
  of the size asked for and of the present ledger, and a proof that \<open>verify_consistency\<close> accepts for
  them; a size beyond the ledger is answered with 400.\<close>

lemma ledger_consistency_answer:
  assumes h: "healthy ext io" and env: "env_method env = ''GET''"
    "env_path env = ''/v1/ledger/consistency/'' @ show_nat m" "m < 2 ^ 64"
  shows "if m \<le> log_size (ledger st)
    then \<exists>old path from_cp to_cp.
      dispatch ext io st env = (Some (json_resp ext 200 (consistency_value ext from_cp to_cp path)), st) \<and>
      root_at (sha256 ext) (ledger st) m = Some old \<and>
      checkpoint_signed ext (proof_sk st) from_cp \<and> checkpoint_signed ext (proof_sk st) to_cp \<and>
      cp_size from_cp = m \<and> cp_root_hex from_cp = hex_encode ext old \<and>
      cp_size to_cp = log_size (ledger st) \<and> cp_root_hex to_cp = hex_encode ext (root (sha256 ext) (ledger st)) \<and>
      verify_consistency (sha256 ext) m old (cp_size to_cp) (root (sha256 ext) (ledger st)) path
    else dispatch ext io st env = (Some (error_resp ext 400 ''invalid_tree_size''), st)"
proof (cases "m \<le> log_size (ledger st)")
  case True
  obtain old path where op: "root_at (sha256 ext) (ledger st) m = Some old"
    "consistency_path (sha256 ext) (ledger st) m = Some (Some path)"
    "verify_consistency (sha256 ext) m old (log_size (ledger st)) (root (sha256 ext) (ledger st)) path"
    using tlog.cons_ok [OF True] by blast
  obtain from_cp where from_cp: "sign_checkpoint ext (now_secs io 0) st m old = Some from_cp"
    using healthy_checkpoint [OF h] by blast
  obtain to_cp where to_cp: "current_checkpoint ext (now_secs io 1) st = Some to_cp"
    using healthy_checkpoint [OF h] by blast
  with op from_cp have "ledger_consistency ext io st m = Some (Some (consistency_value ext from_cp to_cp path))"
    by (simp add: ledger_consistency_def)
  with dispatch_consistency_route [OF env, of ext io st] op checkpoint_fields [OF from_cp] checkpoint_fields [OF to_cp]
    sign_checkpoint_signed [OF from_cp] sign_checkpoint_signed [OF to_cp]
  show ?thesis unfolding if_P [OF True]
    by (intro exI [of _ old] exI [of _ path] exI [of _ from_cp] exI [of _ to_cp]) simp
next
  case False
  then have "ledger_consistency ext io st m = Some None"
    by (simp add: ledger_consistency_def root_at_def log_size_def)
  with dispatch_consistency_route [OF env, of ext io st] False show ?thesis by simp
qed

lemma resp_status_json [simp]: "resp_status (json_resp ext status v) = status" "resp_status (error_resp ext status e) = status"
  by (simp_all add: json_resp_def error_resp_def Let_def)

lemma publish_healthy: "healthy ext io \<Longrightarrow> \<exists>r. publish_attestation ext io st = Some r"
  using healthy_clock [of ext io 0] by (auto simp: publish_attestation_def split: sum.split)

lemma ledger_root_healthy: "healthy ext io \<Longrightarrow> \<exists>r. ledger_root ext io st = Some r"
  using healthy_checkpoint [of ext io 0 st "log_size (ledger st)" "root (sha256 ext) (ledger st)"]
  by (auto simp: ledger_root_def)

lemma ledger_proof_healthy: "healthy ext io \<Longrightarrow> \<exists>r. ledger_proof ext io st idx = Some r"
proof -
  assume "healthy ext io"
  then obtain cp where "current_checkpoint ext (now_secs io 0) st = Some cp" using healthy_checkpoint by blast
  moreover obtain q where "inclusion_path (sha256 ext) (ledger st) idx = Some q"
    using tlog.incl_returns [of "sha256 ext" "ledger st" idx] by blast
  ultimately show ?thesis by (auto simp: ledger_proof_def split: option.split)
qed

lemma ledger_consistency_healthy: "healthy ext io \<Longrightarrow> \<exists>r. ledger_consistency ext io st m = Some r"
proof -
  assume h: "healthy ext io"
  then obtain to_cp where to_cp: "current_checkpoint ext (now_secs io 1) st = Some to_cp"
    using healthy_checkpoint by blast
  obtain q where q: "consistency_path (sha256 ext) (ledger st) m = Some q"
    using tlog.cons_returns [of "sha256 ext" "ledger st" m] by blast
  show ?thesis
  proof (cases "root_at (sha256 ext) (ledger st) m")
    case None
    then show ?thesis by (simp add: ledger_consistency_def)
  next
    case (Some old)
    moreover obtain from_cp where "sign_checkpoint ext (now_secs io 0) st m old = Some from_cp"
      using healthy_checkpoint [OF h] by blast
    ultimately show ?thesis using q to_cp by (cases q) (simp_all add: ledger_consistency_def)
  qed
qed

lemma routes_disjoint:
  "prefix proof_route path \<Longrightarrow> path \<noteq> ''/v1/ledger/root''"
  "prefix consistency_route path \<Longrightarrow> path \<noteq> ''/v1/ledger/root'' \<and> \<not> prefix proof_route path"
  by (auto simp: prefix_def)

definition json_answer :: "externals \<Rightarrow> vsock_response \<Rightarrow> bool" where
  "json_answer ext resp \<longleftrightarrow> (\<exists>status v. resp = json_resp ext status v \<and> status \<in> {200, 400, 404, 500})"

lemma json_answer_resp [simp]:
  "status \<in> {200, 400, 404, 500} \<Longrightarrow> json_answer ext (json_resp ext status v)"
  "status \<in> {200, 400, 404, 500} \<Longrightarrow> json_answer ext (error_resp ext status e)"
  by (auto simp: json_answer_def error_resp_def)

lemma dispatch_json:
  assumes "healthy ext io"
  shows "\<exists>resp st'. dispatch ext io st env = (Some resp, st') \<and> json_answer ext resp \<and>
    (st' = st \<or> env_method env = ''POST'' \<and> env_path env = ''/v1/gateway/inference'')"
proof -
  obtain a where a: "publish_attestation ext io st = Some a" using publish_healthy [OF assms] by blast
  obtain r where r: "ledger_root ext io st = Some r" using ledger_root_healthy [OF assms] by blast
  have p: "\<exists>v. ledger_proof ext io st idx = Some v" for idx by (rule ledger_proof_healthy [OF assms])
  have c: "\<exists>v. ledger_consistency ext io st m = Some v" for m by (rule ledger_consistency_healthy [OF assms])
  have s: "\<exists>v st'. process_and_delete ext io st body (tenant_of env) = (Some (Inr v), st')" for body
    by (rule process_healthy [OF assms])
  let ?special = "env_method env = ''GET'' \<and> env_path env = ''/v1/attestation'' \<or>
    env_method env = ''POST'' \<and> env_path env = ''/v1/gateway/inference''"
  consider (attestation) "env_method env = ''GET'' \<and> env_path env = ''/v1/attestation''"
    | (inference) "env_method env = ''POST'' \<and> env_path env = ''/v1/gateway/inference''"
    | (ledger) "env_method env = ''GET''" "env_path env = ''/v1/ledger/root''"
    | (proof_path) "\<not> ?special" "env_method env = ''GET''" "prefix proof_route (env_path env)"
    | (consistency) "\<not> ?special" "env_method env = ''GET''" "prefix consistency_route (env_path env)"
    | (other) "\<not> ?special" "\<not> (env_method env = ''GET'' \<and> (env_path env = ''/v1/ledger/root'' \<or>
        prefix proof_route (env_path env) \<or> prefix consistency_route (env_path env)))"
    by blast
  then show ?thesis
  proof cases
    case attestation
    with a show ?thesis by (auto simp: dispatch_eq Let_def split: sum.split)
  next
    case inference
    with s [of "case b64_decode ext (env_body_b64 env) of None \<Rightarrow> [] | Some b \<Rightarrow> b"] show ?thesis
      by (auto simp: dispatch_eq Let_def)
  next
    case ledger
    with r show ?thesis by (simp add: dispatch_eq)
  next
    case proof_path
    show ?thesis
    proof (cases "parse_usize (trim_start_matches proof_route (env_path env))")
      case (Some idx)
      obtain v where "ledger_proof ext io st idx = Some v" using p by blast
      with Some proof_path routes_disjoint(1) show ?thesis
        by (cases v) (auto simp: dispatch_eq Let_def)
    qed (use proof_path routes_disjoint(1) in \<open>auto simp: dispatch_eq Let_def\<close>)
  next
    case consistency
    show ?thesis
    proof (cases "parse_usize (trim_start_matches consistency_route (env_path env))")
      case (Some m)
      obtain v where "ledger_consistency ext io st m = Some v" using c by blast
      with Some consistency routes_disjoint(2) show ?thesis
        by (cases v) (auto simp: dispatch_eq Let_def)
    qed (use consistency routes_disjoint(2) in \<open>auto simp: dispatch_eq Let_def\<close>)
  next
    case other
    then show ?thesis by (auto simp: dispatch_eq Let_def)
  qed
qed

text \<open>C19. The dispatcher is total: in healthy surroundings it answers every envelope, whatever its method,
  path, headers and body, with status 200, 400, 404 or 500, and only the inference route changes the
  state. No index, size or path makes a task panic or run for ever.\<close>

theorem dispatch_total:
  assumes "healthy ext io"
  shows "\<exists>resp st'. dispatch ext io st env = (Some resp, st') \<and> resp_status resp \<in> {200, 400, 404, 500} \<and>
    (st' = st \<or> env_method env = ''POST'' \<and> env_path env = ''/v1/gateway/inference'')"
proof -
  obtain resp st' where "dispatch ext io st env = (Some resp, st')" "json_answer ext resp"
    "st' = st \<or> env_method env = ''POST'' \<and> env_path env = ''/v1/gateway/inference''"
    using dispatch_json [OF assms] by blast
  then show ?thesis by (intro exI [of _ resp] exI [of _ st']) (auto simp: json_answer_def)
qed

theorem dispatch_total_witness:
  "\<exists>resp st'. dispatch demo_gateway demo_io demo_state (demo_get ''/nowhere'') = (Some resp, st') \<and>
    resp_status resp \<in> {200, 400, 404, 500} \<and>
    (st' = demo_state \<or> env_method (demo_get ''/nowhere'') = ''POST'' \<and>
      env_path (demo_get ''/nowhere'') = ''/v1/gateway/inference'')"
  by (rule dispatch_total) simp

lemma publish_attestation_doc:
  assumes "publish_attestation ext io st = Some (Inr att)"
  obtains user_data doc where "try_canonical_json ext (binding_value ext st) = Inr user_data"
    and "io_nsm io 0 (AttestationRequest (Some user_data) None (Some (channel_pk st))) = AttestationDocument doc"
    and "nitro_attestation_b64 att = b64_encode ext doc"
    and "ao_channel_public_key_hex att = hex_encode ext (channel_pk st)"
    and "ao_proof_verifier_key_hex att = hex_encode ext (ed25519_public ext (proof_sk st))"
  using assms
  by (auto simp: publish_attestation_def generate_attestation_def split: sum.splits option.splits nsm_response.splits)

lemma binding_names_keys:
  "object_map (map_insert ext) \<Longrightarrow>
   json_get (binding_value ext st) ''channel_public_key_hex'' = Some (JString (hex_encode ext (channel_pk st))) \<and>
   json_get (binding_value ext st) ''proof_verifier_key_hex'' =
     Some (JString (hex_encode ext (ed25519_public ext (proof_sk st))))"
  by (simp add: binding_value_def json_get_obj)

text \<open>The attestation binds both keys: what \<open>publish_attestation\<close> returns carries the document the NSM
  produced for exactly this enclave's channel key as public key and, as user data, the canonical bytes of
  an object that names the channel key and the proof key; the keys shown beside it are the same.\<close>

lemma attestation_binds_keys:
  assumes "publish_attestation ext io st = Some (Inr att)" and o: "object_map (map_insert ext)"
  shows "\<exists>binding user_data doc. io_nsm io 0 (AttestationRequest (Some user_data) None (Some (channel_pk st))) =
      AttestationDocument doc \<and>
    nitro_attestation_b64 att = b64_encode ext doc \<and> try_canonical_json ext binding = Inr user_data \<and>
    json_get binding ''channel_public_key_hex'' = Some (JString (ao_channel_public_key_hex att)) \<and>
    json_get binding ''proof_verifier_key_hex'' = Some (JString (ao_proof_verifier_key_hex att)) \<and>
    ao_channel_public_key_hex att = hex_encode ext (channel_pk st) \<and>
    ao_proof_verifier_key_hex att = hex_encode ext (ed25519_public ext (proof_sk st))"
proof -
  obtain user_data doc where d: "try_canonical_json ext (binding_value ext st) = Inr user_data"
    "io_nsm io 0 (AttestationRequest (Some user_data) None (Some (channel_pk st))) = AttestationDocument doc"
    "nitro_attestation_b64 att = b64_encode ext doc"
    "ao_channel_public_key_hex att = hex_encode ext (channel_pk st)"
    "ao_proof_verifier_key_hex att = hex_encode ext (ed25519_public ext (proof_sk st))"
    using assms(1) by (rule publish_attestation_doc)
  then show ?thesis using binding_names_keys [OF o, of st]
    by (intro exI [of _ "binding_value ext st"] exI [of _ user_data] exI [of _ doc]) simp
qed

text \<open>C20. Boot: with a device that never answers a request for randomness with an empty string, the
  enclave's initialisation always returns; it fails with an error of the device, or it succeeds with two
  keys of 32 bytes, the public channel key that belongs to the secret one, counter 0, an empty log and
  the default policy. The copies into 32-byte arrays never panic.\<close>

theorem boot_state:
  assumes "lively dev"
  shows "\<exists>r. new_state ext fd dev = Some r \<and>
    ((\<exists>e. r = Inl e) \<or>
     (\<exists>st. r = Inr st \<and> 0 \<le> fd \<and> nsm_fd st = fd \<and> length (channel_sk st) = 32 \<and> length (proof_sk st) = 32 \<and>
        channel_pk st = x25519_public ext (channel_sk st) \<and> counter st = 0 \<and> ledger st = new_log \<and>
        enclave_policy st = default_v1))"
proof (cases "fd < 0")
  case False
  obtain r k where first: "random_bytes dev 0 32 = Some (r, k)" using random_bytes_returns [OF assms] by blast
  obtain r' k' where second: "random_bytes dev k 32 = Some (r', k')" using random_bytes_returns [OF assms] by blast
  show ?thesis
    using False first second random_bytes_length [of dev 0 32 _ k] random_bytes_length [of dev k 32 _ k']
    by (cases r; cases r') (auto simp: new_state_def nsm_new_def copy_32_def)
qed (simp add: new_state_def nsm_new_def)

definition demo_device :: nsm_device where
  "demo_device k req = RandomBytes (replicate 24 (word_of_nat k))"

theorem boot_state_witness:
  "\<exists>r. new_state demo_gateway 3 demo_device = Some r \<and>
    ((\<exists>e. r = Inl e) \<or>
     (\<exists>st. r = Inr st \<and> 0 \<le> (3::int) \<and> nsm_fd st = 3 \<and> length (channel_sk st) = 32 \<and> length (proof_sk st) = 32 \<and>
        channel_pk st = x25519_public demo_gateway (channel_sk st) \<and> counter st = 0 \<and> ledger st = new_log \<and>
        enclave_policy st = default_v1))"
  by (rule boot_state) (simp add: lively_def demo_device_def)

text \<open>C21. A malformed inference request is not refused with a client error: the route answers it with
  status 200 and a signed failure proof with code \<open>malformed_request\<close>, and spends one counter value and
  one ledger entry on it.\<close>

theorem malformed_request_logged:
  assumes "healthy ext io" and o: "object_map (map_insert ext)"
    and "env_method env = ''POST''" and "env_path env = ''/v1/gateway/inference''"
    and "parse_request ext (case b64_decode ext (env_body_b64 env) of None \<Rightarrow> [] | Some b \<Rightarrow> b) = None"
  shows "\<exists>v pf receipt st'. dispatch ext io st env = (Some (json_resp ext 200 v), st') \<and>
    json_get v ''error'' = Some (JString ''malformed_request'') \<and>
    json_get v ''proof'' = Some (proof_to_value ext pf) \<and>
    error_code (statement pf) = Some ''malformed_request'' \<and> session_done ext st pf receipt st' \<and>
    log_size (ledger st') = log_size (ledger st) + 1"
proof -
  let ?body = "case b64_decode ext (env_body_b64 env) of None \<Rightarrow> [] | Some b \<Rightarrow> b"
  obtain v st' where run: "process_and_delete ext io st ?body (tenant_of env) = (Some (Inr v), st')"
    using process_healthy [OF assms(1)] by blast
  then have "fail ext io st ''malformed_request'' [] (tenant_of env) ''gateway'' False = (Some (Inr v), st')"
    using assms(5) by (simp add: process_and_delete_def decide_malformed)
  from fail_session [OF this] obtain stamp pf receipt where pf:
    "statement pf = failure_statement ext stamp st (counter st + 1) ''malformed_request'' [] (tenant_of env) ''gateway'' False"
    "v = failure_value ext io ''malformed_request'' pf receipt" "session_done ext st pf receipt st'" by blast
  moreover have "dispatch ext io st env = (Some (json_resp ext 200 v), st')"
    using assms(3,4) run by (simp add: dispatch_eq Let_def)
  moreover have "log_size (ledger st') = log_size (ledger st) + 1"
    using pf(3) by (auto simp: session_done_def log_size_def)
  ultimately show ?thesis using o
    by (intro exI [of _ v] exI [of _ pf] exI [of _ receipt] exI [of _ st']) (simp add: failure_statement_def)
qed

theorem malformed_request_logged_witness:
  "\<exists>v pf receipt st'. dispatch demo_gateway demo_io demo_state
      (demo_get ''/v1/gateway/inference''\<lparr>env_method := ''POST''\<rparr>) = (Some (json_resp demo_gateway 200 v), st') \<and>
    json_get v ''error'' = Some (JString ''malformed_request'') \<and>
    json_get v ''proof'' = Some (proof_to_value demo_gateway pf) \<and>
    error_code (statement pf) = Some ''malformed_request'' \<and> session_done demo_gateway demo_state pf receipt st' \<and>
    log_size (ledger st') = log_size (ledger demo_state) + 1"
  by (rule malformed_request_logged)
    (simp_all add: demo_get_def, simp add: demo_gateway_def demo_ext_def as_bytes_def)

end
