(* ===== verification/Enclave_Service.thy ===== *)
theory Enclave_Service
  imports Enclave_Props
begin

text \<open>
  The enclave as a service: \<open>main\<close> boots, publishes an attestation, and then accepts connections for ever,
  each served by a task of its own over the one shared state. A task touches that state at most twice:
  every query at once, under the ledger's lock; an inference request first when it draws its counter
  (\<open>fetch_add\<close>) and again when it appends its proof under the lock. Between the two any other task may
  run, so a step of the service is one of these atomic actions of one task, or a new connection.
  A task whose peer never completes a frame simply never takes its first step; when \<open>accept\<close> itself fails,
  \<open>main\<close> returns and there are no further steps.
\<close>

definition boot :: "externals \<Rightarrow> request_io \<Rightarrow> int \<Rightarrow> nsm_device \<Rightarrow> (string + enclave_state \<times> attestation_out) option"
where
  "boot ext io fd dev =
     (case new_state ext fd dev of
        None \<Rightarrow> None
      | Some (Inl e) \<Rightarrow> Some (Inl e)
      | Some (Inr st) \<Rightarrow>
     (case publish_attestation ext io st of
        None \<Rightarrow> None
      | Some (Inl e) \<Rightarrow> Some (Inl e)
      | Some (Inr boot_attestation) \<Rightarrow> Some (Inr (st, boot_attestation))))"

section \<open>The task of one connection\<close>

text \<open>\<open>Accepted\<close>: the request is still to be read. \<open>Drawn\<close>: an inference request that was decided and has drawn its
  counter, with the tenant it came from. \<open>Ended\<close>: the status and JSON value it answered, if it came to
  an answer, and what \<open>handle_conn\<close> returned (\<open>None\<close> after a panic).\<close>

datatype phase =
    Accepted
  | Drawn decision u64 string
  | Ended "(u16 \<times> json) option" "(conn_error + bytes) option"

record task =
  task_io :: request_io
  task_stream :: bytes
  task_phase :: phase

definition finish :: "externals \<Rightarrow> (u16 \<times> json) option \<Rightarrow> phase" where
  "finish ext r = Ended r (map_option (\<lambda>(status, v). respond ext (json_resp ext status v)) r)"

text \<open>From the accepted connection to the answer, or for an inference request to its \<open>fetch_add\<close>.\<close>

definition start_task :: "externals \<Rightarrow> request_io \<Rightarrow> enclave_state \<Rightarrow> bytes \<Rightarrow> phase \<times> enclave_state" where
  "start_task ext io st stream =
     (case receive ext stream of
        Inl e \<Rightarrow> (Ended None (Some (Inl e)), st)
      | Inr env \<Rightarrow>
      if inference_route env then
        (case decide ext st (request_body ext env) of
           None \<Rightarrow> (finish ext None, st)
         | Some (Aborted e) \<Rightarrow> (finish ext (Some (inference_answer ext (Inl e))), st)
         | Some d \<Rightarrow> (let (n, st) = next_counter st in (Drawn d n (tenant_of env), st)))
      else (finish ext (answer_query ext io st env), st))"

text \<open>The rest of an inference request: \<open>log_failure\<close> or \<open>log_success\<close>, then the answer.\<close>

fun end_session ::
  "externals \<Rightarrow> request_io \<Rightarrow> u64 \<Rightarrow> enclave_state \<Rightarrow> string \<Rightarrow> decision \<Rightarrow> (string + json) option \<times> enclave_state"
where
  "end_session ext io n st tenant (Refused code commitment processor wiped) =
     log_failure ext io n st code commitment tenant processor wiped"
| "end_session ext io n st tenant (Served commitment processor response result_hash) =
     log_success ext io n st commitment tenant processor response result_hash"
| "end_session ext io n st tenant (Aborted e) = (Some (Inl e), st)"

definition task_step :: "externals \<Rightarrow> task \<Rightarrow> enclave_state \<Rightarrow> phase \<times> enclave_state" where
  "task_step ext t st =
     (case task_phase t of
        Accepted \<Rightarrow> start_task ext (task_io t) st (task_stream t)
      | Drawn d n tenant \<Rightarrow>
         (let (r, st) = end_session ext (task_io t) n st tenant d in
          (finish ext (map_option (inference_answer ext) r), st))
      | Ended v r \<Rightarrow> (Ended v r, st))"

text \<open>A task that no other one interrupts does what \<open>handle_conn\<close> does.\<close>

fun conn_outcome :: "phase \<Rightarrow> (conn_error + bytes) option" where
  "conn_outcome (Ended v r) = r"
| "conn_outcome _ = None"

lemma process_is_draw_and_end:
  "process_and_delete ext io st body tenant =
     (case decide ext st body of
        None \<Rightarrow> (None, st)
      | Some (Aborted e) \<Rightarrow> (Some (Inl e), st)
      | Some d \<Rightarrow> (let (n, st) = next_counter st in end_session ext io n st tenant d))"
  by (simp add: process_and_delete_def fail_def split: option.split decision.split)

lemma task_alone:
  "handle_conn ext io st stream =
     (case start_task ext io st stream of
        (Drawn d n tenant, st1) \<Rightarrow>
         (let (p, st2) = task_step ext \<lparr>task_io = io, task_stream = stream, task_phase = Drawn d n tenant\<rparr> st1 in
          (conn_outcome p, st2))
      | (p, st1) \<Rightarrow> (conn_outcome p, st1))"
proof (cases "receive ext stream")
  case (Inr env)
  show ?thesis
  proof (cases "inference_route env")
    case True
    show ?thesis
    proof (cases "decide ext st (request_body ext env)")
      case (Some d)
      with True Inr show ?thesis
        by (cases d) (auto simp: handle_conn_def dispatch_def start_task_def task_step_def process_is_draw_and_end
          finish_def next_counter_def Let_def inference_answer_def split: prod.split option.split)
    qed (use True Inr in \<open>simp add: handle_conn_def dispatch_def start_task_def process_is_draw_and_end finish_def\<close>)
  next
    case False
    with Inr show ?thesis
      by (simp add: handle_conn_def dispatch_def start_task_def finish_def split: option.split prod.split)
  qed
qed (simp add: handle_conn_def start_task_def)

section \<open>The service\<close>

record service =
  shared :: enclave_state
  tasks :: "task list"

definition ended :: "task \<Rightarrow> bool" where
  "ended t \<longleftrightarrow> (case task_phase t of Ended v r \<Rightarrow> True | _ \<Rightarrow> False)"

definition listening :: "enclave_state \<Rightarrow> service" where
  "listening st = \<lparr>shared = st, tasks = []\<rparr>"

text \<open>\<open>run_step ext i\<close>: the task of connection \<open>i\<close> takes its next action; \<open>service_step\<close>: any task does, or a
  connection is accepted, with whatever bytes it will bring and whatever its task will read.\<close>

inductive run_step :: "externals \<Rightarrow> nat \<Rightarrow> service \<Rightarrow> service \<Rightarrow> bool" for ext where
  run: "i < length (tasks s) \<Longrightarrow> \<not> ended (tasks s ! i) \<Longrightarrow> task_step ext (tasks s ! i) (shared s) = (p, st') \<Longrightarrow>
    run_step ext i s (s\<lparr>shared := st', tasks := (tasks s)[i := (tasks s ! i)\<lparr>task_phase := p\<rparr>]\<rparr>)"

inductive service_step :: "externals \<Rightarrow> service \<Rightarrow> service \<Rightarrow> bool" for ext where
  accept: "service_step ext s
    (s\<lparr>tasks := tasks s @ [\<lparr>task_io = io, task_stream = stream, task_phase = Accepted\<rparr>]\<rparr>)"
| serve: "run_step ext i s s' \<Longrightarrow> service_step ext s s'"

inductive_cases run_stepE: "run_step ext i s s'"
inductive_cases service_stepE: "service_step ext s s'"

abbreviation service_steps :: "externals \<Rightarrow> service \<Rightarrow> service \<Rightarrow> bool" where
  "service_steps ext \<equiv> (service_step ext)\<^sup>*\<^sup>*"

definition own_step :: "externals \<Rightarrow> service \<Rightarrow> service \<Rightarrow> bool" where
  "own_step ext s s' \<longleftrightarrow> (\<exists>i. run_step ext i s s')"

section \<open>What one action does\<close>

text \<open>The inference request a connection carries, if it carries one.\<close>

definition inference_of :: "externals \<Rightarrow> bytes \<Rightarrow> vsock_envelope option" where
  "inference_of ext stream =
     (case receive ext stream of
        Inl e \<Rightarrow> None
      | Inr env \<Rightarrow> if inference_route env then Some env else None)"

text \<open>\<open>task_ok\<close>: a task between its two actions came from an inference request, and not from an aborted one.\<close>

definition task_ok :: "externals \<Rightarrow> task \<Rightarrow> bool" where
  "task_ok ext t \<longleftrightarrow> (\<forall>d n tenant. task_phase t = Drawn d n tenant \<longrightarrow>
     (\<exists>env. inference_of ext (task_stream t) = Some env \<and> tenant = tenant_of env) \<and> (\<forall>e. d \<noteq> Aborted e))"

text \<open>The JSON value of a session's answer: the proof and receipt it shows, below the fields of its kind.\<close>

definition session_value :: "externals \<Rightarrow> json \<Rightarrow> signed_proof \<Rightarrow> json \<Rightarrow> bool" where
  "session_value ext v pf receipt \<longleftrightarrow>
     (\<exists>io code. v = failure_value ext io code pf receipt) \<or> (\<exists>io response. v = success_value ext io response pf receipt)"

lemma session_value_get:
  "session_value ext v pf receipt \<Longrightarrow> object_map (map_insert ext) \<Longrightarrow>
   json_get v ''proof'' = Some (proof_to_value ext pf) \<and> json_get v ''receipt'' = Some receipt"
  by (auto simp: session_value_def)

lemma finish_simps [simp]:
  "finish ext None = Ended None None"
  "finish ext (Some (status, v)) = Ended (Some (status, v)) (Some (respond ext (json_resp ext status v)))"
  by (simp_all add: finish_def)

lemma ended_finish [simp]: "ended t' \<longleftrightarrow> True" if "task_phase t' = finish ext r" for t'
  using that by (simp add: ended_def finish_def)

lemma start_task_cases:
  assumes "start_task ext io st stream = (p, st')"
  obtains (unread) e where "receive ext stream = Inl e" "p = Ended None (Some (Inl e))" "st' = st"
  | (query) env where "receive ext stream = Inr env" "\<not> inference_route env"
      "p = finish ext (answer_query ext io st env)" "st' = st"
  | (undecided) env r where "receive ext stream = Inr env" "inference_route env" "st' = st"
      "p = finish ext (map_option (inference_answer ext) r)" "\<And>v. r \<noteq> Some (Inr v)" "\<not> healthy ext io"
  | (drawn) env d where "receive ext stream = Inr env" "inference_route env"
      "decide ext st (request_body ext env) = Some d" "\<And>e. d \<noteq> Aborted e"
      "p = Drawn d (counter st + 1) (tenant_of env)" "st' = st\<lparr>counter := counter st + 1\<rparr>"
proof (cases "receive ext stream")
  case (Inl e)
  with assms show ?thesis by (intro unread) (auto simp: start_task_def)
next
  case r: (Inr env)
  show ?thesis
  proof (cases "inference_route env")
    case False
    with assms r show ?thesis by (intro query) (auto simp: start_task_def)
  next
    case route: True
    show ?thesis
    proof (cases "decide ext st (request_body ext env)")
      case None
      with decide_healthy [of ext io st "request_body ext env"] assms r route show ?thesis
        by (intro undecided [of env None]) (auto simp: start_task_def)
    next
      case (Some d)
      show ?thesis
      proof (cases "\<exists>e. d = Aborted e")
        case True
        then obtain e where "d = Aborted e" ..
        with Some decide_healthy [of ext io st "request_body ext env"] assms r route show ?thesis
          by (intro undecided [of env "Some (Inl e)"]) (auto simp: start_task_def)
      next
        case False
        with Some assms r route show ?thesis
          by (intro drawn [of env d]) (auto simp: start_task_def next_counter_def split: decision.splits)
      qed
    qed
  qed
qed

lemma end_session_cases:
  assumes "end_session ext io n st tenant d = (r, st')" and "\<And>e. d \<noteq> Aborted e"
  obtains (lost) "st' = st" "\<And>v. r \<noteq> Some (Inr v)" "\<not> healthy ext io"
  | (panicked) pf entry where "r = None" "st' = entry_logged ext st entry" "\<not> healthy ext io"
      "try_canonical_json ext (proof_to_value ext pf) = Inr entry" "signed_by ext (proof_sk st) pf"
      "ps_counter (statement pf) = n" "tenant_id (statement pf) = tenant"
  | (logged) pf entry receipt v where "r = Some (Inr v)" "st' = entry_logged ext st entry"
      "try_canonical_json ext (proof_to_value ext pf) = Inr entry" "signed_by ext (proof_sk st) pf"
      "ps_counter (statement pf) = n" "tenant_id (statement pf) = tenant"
      "session_value ext v pf receipt" "receipt_for ext st' entry receipt"
proof (cases "take_stamp ext io")
  case None
  with assms healthy_stamp [of ext io] show ?thesis
    by (cases d; intro lost) (auto simp: log_failure_def log_success_def)
next
  case (Some stamp)
  obtain f stmt where r: "(r, st') = answer f (emit_proof ext io st stmt)" "ps_counter stmt = n" "tenant_id stmt = tenant"
    "\<And>pf receipt. session_value ext (f pf receipt) pf receipt"
  proof (cases d)
    case (Refused code commitment processor wiped)
    with assms Some show thesis
      by (intro that [of "failure_value ext io code" "failure_statement ext stamp st n code commitment tenant processor wiped"])
        (auto simp: log_failure_def failure_statement_def session_value_def)
  next
    case (Served commitment processor response result_hash)
    with assms Some show thesis
      by (intro that [of "success_value ext io response"
            "success_statement ext stamp st n commitment tenant processor response result_hash"])
        (auto simp: log_success_def success_statement_def session_value_def)
  next
    case (Aborted e)
    with assms(2) [of e] show thesis by simp
  qed
  show ?thesis
  proof (cases rule: emit_proof_cases [of ext io st stmt])
    case (refused e)
    with r show ?thesis by (intro lost) (auto simp: answer_def)
  next
    case (panicked pf entry)
    with r show ?thesis by (intro that(2) [of entry pf]) (auto simp: answer_def)
  next
    case (emitted pf entry receipt)
    with r show ?thesis by (intro logged [of "f pf receipt" entry pf receipt]) (auto simp: answer_def)
  qed
qed

text \<open>The state keeps its keys and policy, and its log is only extended, by at most one leaf.\<close>

definition same_keys :: "enclave_state \<Rightarrow> enclave_state \<Rightarrow> bool" where
  "same_keys st st' \<longleftrightarrow> channel_sk st' = channel_sk st \<and> channel_pk st' = channel_pk st \<and>
     proof_sk st' = proof_sk st \<and> enclave_policy st' = enclave_policy st"

definition extended :: "enclave_state \<Rightarrow> enclave_state \<Rightarrow> bool" where
  "extended st st' \<longleftrightarrow> same_keys st st' \<and> prefix (leaves (ledger st)) (leaves (ledger st'))"

lemma extended_refl [simp]: "extended st st"
  by (simp add: extended_def same_keys_def)

lemma extended_trans: "extended a b \<Longrightarrow> extended b c \<Longrightarrow> extended a c"
  by (auto simp: extended_def same_keys_def intro: prefix_order.trans)

lemma extended_draw [simp]: "extended st (st\<lparr>counter := n\<rparr>)"
  by (simp add: extended_def same_keys_def)

lemma extended_entry [simp]: "extended st (entry_logged ext st entry)"
  by (simp add: extended_def same_keys_def)

lemma task_step_extended:
  assumes "task_step ext t st = (p, st')" and "task_ok ext t"
  shows "extended st st'"
proof (cases "task_phase t")
  case Accepted
  with assms have "start_task ext (task_io t) st (task_stream t) = (p, st')" by (simp add: task_step_def)
  then show ?thesis by (cases rule: start_task_cases) simp_all
next
  case (Drawn d n tenant)
  then obtain r where r: "end_session ext (task_io t) n st tenant d = (r, st')"
    using assms(1) by (auto simp: task_step_def split: prod.splits)
  from assms(2) Drawn have "d \<noteq> Aborted e" for e by (simp add: task_ok_def)
  with r show ?thesis by (cases rule: end_session_cases) simp_all
qed (use assms in \<open>simp add: task_step_def\<close>)

lemma task_step_ok:
  assumes "task_step ext t st = (p, st')" and "\<not> ended t"
  shows "task_ok ext (t\<lparr>task_phase := p\<rparr>)"
proof (cases "task_phase t")
  case Accepted
  with assms have "start_task ext (task_io t) st (task_stream t) = (p, st')" by (simp add: task_step_def)
  then show ?thesis by (cases rule: start_task_cases) (auto simp: task_ok_def inference_of_def finish_def)
qed (use assms in \<open>auto simp: task_step_def task_ok_def finish_def ended_def split: prod.splits\<close>)

definition tasks_ok :: "externals \<Rightarrow> service \<Rightarrow> bool" where
  "tasks_ok ext s \<longleftrightarrow> list_all (task_ok ext) (tasks s)"

lemma run_step_ok: "run_step ext i s s' \<Longrightarrow> tasks_ok ext s \<Longrightarrow> tasks_ok ext s' \<and> extended (shared s) (shared s')"
proof (induction rule: run_step.induct)
  case (run i s p st')
  then have "task_ok ext (tasks s ! i)" by (simp add: tasks_ok_def list_all_length)
  with task_step_extended [OF run(3)] task_step_ok [OF run(3,2)] run(1,4) show ?case
    by (auto simp: tasks_ok_def list_all_length nth_list_update)
qed

lemma service_step_ok: "service_step ext s s' \<Longrightarrow> tasks_ok ext s \<Longrightarrow> tasks_ok ext s' \<and> extended (shared s) (shared s')"
proof (induction rule: service_step.induct)
  case (accept s io stream)
  then show ?case by (simp add: tasks_ok_def) (simp add: task_ok_def)
qed (rule run_step_ok)

lemma service_steps_ok: "service_steps ext s s' \<Longrightarrow> tasks_ok ext s \<Longrightarrow> tasks_ok ext s' \<and> extended (shared s) (shared s')"
  by (induction rule: rtranclp_induct) (auto dest: service_step_ok intro: extended_trans)

lemma listening_ok [simp]: "tasks_ok ext (listening st)"
  by (simp add: tasks_ok_def listening_def)

section \<open>Every connection ends\<close>

text \<open>The actions a task has before it.\<close>

definition rank :: "task \<Rightarrow> nat" where
  "rank t = (case task_phase t of Accepted \<Rightarrow> 2 | Drawn d n tenant \<Rightarrow> 1 | Ended v r \<Rightarrow> 0)"

definition pending :: "service \<Rightarrow> nat" where
  "pending s = sum_list (map rank (tasks s))"

lemma task_step_rank:
  assumes "task_step ext t st = (p, st')" and "\<not> ended t"
  shows "rank (t\<lparr>task_phase := p\<rparr>) < rank t"
proof (cases "task_phase t")
  case Accepted
  with assms have "start_task ext (task_io t) st (task_stream t) = (p, st')" by (simp add: task_step_def)
  then show ?thesis by (cases rule: start_task_cases) (use Accepted in \<open>auto simp: rank_def finish_def\<close>)
next
  case (Drawn d n tenant)
  with assms show ?thesis by (auto simp: task_step_def rank_def finish_def split: prod.splits)
next
  case (Ended v r)
  with assms(2) show ?thesis by (simp add: ended_def)
qed

lemma pending_step: "own_step ext s s' \<Longrightarrow> pending s' < pending s"
proof -
  assume "own_step ext s s'"
  then obtain i where "run_step ext i s s'" by (auto simp: own_step_def)
  then show ?thesis
  proof (induction rule: run_step.induct)
    case (run i s p st')
    let ?t = "tasks s ! i" and ?u = "(tasks s ! i)\<lparr>task_phase := p\<rparr>"
    from run(1) have ts: "tasks s = take i (tasks s) @ ?t # drop (Suc i) (tasks s)"
      by (rule id_take_nth_drop)
    have "sum_list (map rank ((tasks s)[i := ?u])) + rank ?t = sum_list (map rank (tasks s)) + rank ?u"
      by (subst (2) ts) (simp add: upd_conv_take_nth_drop [OF run(1)])
    with task_step_rank [OF run(3,2)] show ?case by (simp add: pending_def)
  qed
qed

lemma pending_bound: "pending s \<le> 2 * length (tasks s)"
proof -
  have "sum_list (map rank ts) \<le> 2 * length ts" for ts
    by (induction ts) (auto simp: rank_def split: phase.split)
  then show ?thesis by (simp add: pending_def)
qed

lemma own_steps_bound: "(own_step ext ^^ n) s s' \<Longrightarrow> n + pending s' \<le> pending s"
proof (induction n arbitrary: s')
  case (Suc n)
  then obtain u where u: "(own_step ext ^^ n) s u" "own_step ext u s'" by auto
  from Suc.IH [OF u(1)] pending_step [OF u(2)] show ?case by simp
qed simp

lemma own_step_exists: "i < length (tasks s) \<Longrightarrow> \<not> ended (tasks s ! i) \<Longrightarrow> \<exists>s'. run_step ext i s s'"
  using run_step.run [of i s ext] by (cases "task_step ext (tasks s ! i) (shared s)") blast

lemma run_step_others: "run_step ext i s s' \<Longrightarrow> length (tasks s') = length (tasks s) \<and> (\<forall>j. j \<noteq> i \<longrightarrow> tasks s' ! j = tasks s ! j)"
  by (auto elim: run_stepE)

section \<open>Every request is answered\<close>

text \<open>\<open>answered\<close>: what the peer of one connection gets. A stream that holds no frame or no envelope ends the
  connection; an envelope is answered by one frame with a JSON answer, an inference request with status 200.\<close>

definition answered :: "externals \<Rightarrow> task \<Rightarrow> bool" where
  "answered ext t \<longleftrightarrow>
     (case receive ext (task_stream t) of
        Inl e \<Rightarrow> task_phase t = Ended None (Some (Inl e))
      | Inr env \<Rightarrow> (\<exists>status v bytes. task_phase t = Ended (Some (status, v)) (Some (Inr (write_framed [] bytes))) \<and>
          status \<in> (if inference_route env then {200} else {200, 400, 404, 500}) \<and>
          json_to_vec ext (response_json (json_resp ext status v)) = Some bytes))"

text \<open>\<open>settled\<close>: in healthy surroundings, a task that ended answered its peer, and one that drew its counter
  will.\<close>

definition settled :: "externals \<Rightarrow> task \<Rightarrow> bool" where
  "settled ext t \<longleftrightarrow> (ended t \<longrightarrow> healthy ext (task_io t) \<longrightarrow> answered ext t)"

lemma finish_answered:
  assumes "healthy ext io" and "receive ext (task_stream t) = Inr env" and "task_phase t = finish ext (Some (status, v))"
    and "status \<in> (if inference_route env then {200} else {200, 400, 404, 500})"
  shows "answered ext t"
proof -
  obtain b where "json_to_vec ext (response_json (json_resp ext status v)) = Some b"
    using healthy_writer [OF assms(1)] by blast
  with assms(2-4) show ?thesis by (simp add: answered_def respond_def)
qed

lemma query_healthy:
  assumes "healthy ext io" and "\<not> inference_route env"
  shows "\<exists>status v. answer_query ext io st env = Some (status, v) \<and> status \<in> {200, 400, 404, 500}"
proof -
  note h = assms(1)
  have a: "publish_attestation ext io st \<noteq> None" using publish_healthy [OF h] by (metis option.distinct(1))
  have r: "ledger_root ext io st \<noteq> None" using ledger_root_healthy [OF h] by (metis option.distinct(1))
  have p: "ledger_proof ext io st idx \<noteq> None" for idx using ledger_proof_healthy [OF h] by (metis option.distinct(1))
  have c: "ledger_consistency ext io st m \<noteq> None" for m
    using ledger_consistency_healthy [OF h] by (metis option.distinct(1))
  have "answer_query ext io st env \<noteq> None"
    unfolding answer_query_def Let_def by (simp del: not_None_eq add: a r p c split: option.split)
  moreover have "status \<in> {200, 400, 404, 500}" if "answer_query ext io st env = Some (status, v)" for status v
    using that unfolding answer_query_def Let_def
    by (auto split: if_splits option.splits sum.splits) (meson sum.exhaust)
  ultimately show ?thesis by fast
qed

lemma task_step_settled:
  assumes "task_step ext t st = (p, st')" and "\<not> ended t" and "task_ok ext t"
  shows "settled ext (t\<lparr>task_phase := p\<rparr>)"
proof (cases "healthy ext (task_io t)")
  case h: True
  show ?thesis
  proof (cases "task_phase t")
    case Accepted
    with assms have "start_task ext (task_io t) st (task_stream t) = (p, st')" by (simp add: task_step_def)
    then show ?thesis
    proof (cases rule: start_task_cases)
      case (query env)
      obtain status v where "answer_query ext (task_io t) st env = Some (status, v)" "status \<in> {200, 400, 404, 500}"
        using query_healthy [OF h query(2)] by blast
      with finish_answered [OF h, of "t\<lparr>task_phase := p\<rparr>" env status v] query show ?thesis by (simp add: settled_def)
    qed (use h in \<open>simp_all add: settled_def answered_def ended_def\<close>)
  next
    case (Drawn d n tenant)
    then obtain r where r: "end_session ext (task_io t) n st tenant d = (r, st')"
      and p: "p = finish ext (map_option (inference_answer ext) r)"
      using assms(1) by (auto simp: task_step_def split: prod.splits)
    from assms(3) Drawn obtain env where env: "receive ext (task_stream t) = Inr env" "inference_route env"
      by (auto simp: task_ok_def inference_of_def split: sum.splits if_splits)
    from assms(3) Drawn have "d \<noteq> Aborted e" for e by (simp add: task_ok_def)
    with r show ?thesis
    proof (cases rule: end_session_cases)
      case (logged pf entry receipt v)
      with finish_answered [OF h, of "t\<lparr>task_phase := p\<rparr>" env 200 v] env p show ?thesis
        by (simp add: settled_def inference_answer_def)
    qed (use h in simp_all)
  next
    case (Ended v r)
    with assms(2) show ?thesis by (simp add: ended_def)
  qed
qed (simp add: settled_def)

definition all_settled :: "externals \<Rightarrow> service \<Rightarrow> bool" where
  "all_settled ext s \<longleftrightarrow> list_all (settled ext) (tasks s)"

lemma run_step_settled: "run_step ext i s s' \<Longrightarrow> tasks_ok ext s \<Longrightarrow> all_settled ext s \<Longrightarrow> all_settled ext s'"
proof (induction rule: run_step.induct)
  case (run i s p st')
  then have "task_ok ext (tasks s ! i)" by (simp add: tasks_ok_def list_all_length)
  from task_step_settled [OF run(3,2) this] run(1,5) show ?case
    by (auto simp: all_settled_def list_all_length nth_list_update)
qed

lemma service_steps_settled:
  "service_steps ext (listening st) s \<Longrightarrow> tasks_ok ext s \<and> all_settled ext s"
proof (induction rule: rtranclp_induct)
  case base
  then show ?case by (simp add: all_settled_def listening_def tasks_ok_def)
next
  case (step s s')
  from step(2) show ?case
  proof (cases rule: service_step.cases)
    case (accept io stream)
    with step(3) service_step_ok [OF step(2)] show ?thesis
      by (auto simp: all_settled_def settled_def ended_def)
  next
    case (serve i)
    with step(3) run_step_settled run_step_ok show ?thesis by blast
  qed
qed

lemma own_steps_service: "(own_step ext)\<^sup>*\<^sup>* s s' \<Longrightarrow> service_steps ext s s'"
  by (erule mono_rtranclp [rule_format, rotated]) (auto simp: own_step_def intro: serve)

lemma run_step_ios: "run_step ext i s s' \<Longrightarrow> map task_io (tasks s') = map task_io (tasks s)"
  by (auto elim!: run_stepE intro!: nth_equalityI simp: nth_list_update)

lemma own_steps_ios: "(own_step ext)\<^sup>*\<^sup>* s s' \<Longrightarrow> map task_io (tasks s') = map task_io (tasks s)"
  by (induction rule: rtranclp_induct) (auto simp: own_step_def dest: run_step_ios)

lemma own_run_ends: "\<exists>n s'. (own_step ext ^^ n) s s' \<and> (\<nexists>s''. own_step ext s' s'')"
proof (induction "pending s" arbitrary: s rule: less_induct)
  case less
  show ?case
  proof (cases "\<exists>u. own_step ext s u")
    case True
    then obtain u where u: "own_step ext s u" ..
    from less [OF pending_step [OF u]] obtain n s' where "(own_step ext ^^ n) u s'" "\<nexists>s''. own_step ext s' s''" by blast
    with u show ?thesis by (meson relpowp_Suc_I2)
  next
    case False
    then show ?thesis by (intro exI [of _ 0] exI [of _ s]) simp
  qed
qed

section \<open>Properties\<close>


definition demo_nsm :: nsm_device where
  "demo_nsm k req = RandomBytes (replicate 32 7)"

lemma demo_random: "random_bytes demo_nsm k 32 = Some (Inr (replicate 32 7), Suc k)"
  unfolding random_bytes_def
  by (subst random_loop.simps, subst random_loop.simps) (simp add: demo_nsm_def)

definition demo_post :: vsock_envelope where
  "demo_post = \<lparr>env_method = ''POST'', env_path = ''/v1/gateway/inference'',
     env_headers = [(''x-tenant-id'', JString ''t'')], env_body_b64 = []\<rparr>"

definition demo_server :: externals where
  "demo_server = demo_gateway\<lparr>parse_envelope := \<lambda>b. if b = [1] then Some demo_post else None\<rparr>"

lemma demo_server_healthy [simp]: "healthy demo_server demo_io"
  using demo_healthy by (simp add: healthy_def demo_server_def)

lemma demo_boot: "\<exists>st att. boot demo_server demo_io 3 demo_nsm = Some (Inr (st, att :: attestation_out))"
  by (simp add: boot_def new_state_def nsm_new_def demo_random copy_32_def publish_attestation_def
      try_canonical_json_def generate_attestation_def demo_io_def now_secs_def demo_server_def)

text \<open>Two connections, one with an inference request and one that breaks off.\<close>

definition demo_connections :: "enclave_state \<Rightarrow> service" where
  "demo_connections st = \<lparr>shared = st,
     tasks = [\<lparr>task_io = demo_io, task_stream = write_framed [] [1], task_phase = Accepted\<rparr>,
       \<lparr>task_io = demo_io, task_stream = [0], task_phase = Accepted\<rparr>]\<rparr>"

lemma demo_connections_reached: "service_steps ext (listening st) (demo_connections st)"
proof -
  let ?t = "\<lparr>task_io = demo_io, task_stream = write_framed [] [1], task_phase = Accepted\<rparr>"
  have "service_step ext (listening st) \<lparr>shared = st, tasks = [?t]\<rparr>"
    using accept [of ext "listening st"] by (simp add: listening_def)
  moreover have "service_step ext \<lparr>shared = st, tasks = [?t]\<rparr> (demo_connections st)"
    using accept [of ext "\<lparr>shared = st, tasks = [?t]\<rparr>"] by (simp add: demo_connections_def)
  ultimately show ?thesis by (meson converse_rtranclp_into_rtranclp r_into_rtranclp)
qed


end
