(* ===== verification/Enclave_Ledger.thy ===== *)
theory Enclave_Ledger
  imports Enclave_Service "HOL-Library.Multiset"
begin

text \<open>
  The ledger as its readers are promised it: a list of signed proofs, one per inference request, whatever
  the order in which the tasks of the connections run. \<open>ledger_inv\<close> relates a state of the service to
  that list, to the connection each proof answers and to the number of counters drawn; every step of
  the service keeps it.
\<close>

section \<open>The abstract ledger\<close>

text \<open>The leaves are the hashes of the canonical bytes of proofs the enclave signed.\<close>

definition ledger_of :: "externals \<Rightarrow> enclave_state \<Rightarrow> signed_proof list \<Rightarrow> bool" where
  "ledger_of ext st pfs \<longleftrightarrow>
     list_all (signed_by ext (proof_sk st)) pfs \<and>
     (\<exists>entries. list_all2 (\<lambda>pf entry. try_canonical_json ext (proof_to_value ext pf) = Inr entry) pfs entries \<and>
        leaves (ledger st) = map (leaf_hash (sha256 ext)) entries)"

lemma ledger_of_size: "ledger_of ext st pfs \<Longrightarrow> log_size (ledger st) = length pfs"
  by (auto simp: ledger_of_def log_size_def dest: list_all2_lengthD)

lemma ledger_of_counter [simp]: "ledger_of ext (st\<lparr>counter := n\<rparr>) pfs \<longleftrightarrow> ledger_of ext st pfs"
  by (simp add: ledger_of_def)

lemma ledger_of_append:
  assumes "ledger_of ext st pfs" and "signed_by ext (proof_sk st) pf"
    and "try_canonical_json ext (proof_to_value ext pf) = Inr entry"
  shows "ledger_of ext (entry_logged ext st entry) (pfs @ [pf])"
proof -
  from assms(1) obtain entries where e: "list_all (signed_by ext (proof_sk st)) pfs"
    "list_all2 (\<lambda>pf entry. try_canonical_json ext (proof_to_value ext pf) = Inr entry) pfs entries"
    "leaves (ledger st) = map (leaf_hash (sha256 ext)) entries" by (auto simp: ledger_of_def)
  with assms(2,3) show ?thesis
    unfolding ledger_of_def by (intro conjI exI [of _ "entries @ [entry]"]) (simp_all add: list_all2_appendI)
qed

text \<open>The counters of the proofs, and those drawn by sessions that have not logged theirs yet.\<close>

abbreviation counters :: "signed_proof list \<Rightarrow> u64 list" where
  "counters pfs \<equiv> map (\<lambda>pf. ps_counter (statement pf)) pfs"

definition drawn_of :: "task \<Rightarrow> u64 list" where
  "drawn_of t = (case task_phase t of Drawn d n tenant \<Rightarrow> [n] | _ \<Rightarrow> [])"

definition drawn :: "task list \<Rightarrow> u64 list" where
  "drawn ts = concat (map drawn_of ts)"

definition first_counters :: "nat \<Rightarrow> u64 list" where
  "first_counters k = map (\<lambda>i. word_of_nat (Suc i)) [0..<k]"

lemma first_counters_Suc [simp]: "first_counters (Suc k) = first_counters k @ [word_of_nat (Suc k)]"
  by (simp add: first_counters_def)

lemma first_counters_distinct: "k < 2 ^ 64 \<Longrightarrow> distinct (first_counters k)"
proof -
  assume k: "k < 2 ^ 64"
  have "inj_on (\<lambda>i. word_of_nat (Suc i) :: u64) {0..<k}"
  proof (rule inj_onI)
    fix i j assume "i \<in> {0..<k}" "j \<in> {0..<k}" and eq: "(word_of_nat (Suc i) :: u64) = word_of_nat (Suc j)"
    then have "Suc i < 2 ^ 64" "Suc j < 2 ^ 64" using k by simp_all
    moreover from eq have "unat (word_of_nat (Suc i) :: u64) = unat (word_of_nat (Suc j) :: u64)" by simp
    ultimately show "i = j" by (simp add: unat_of_nat del: word_of_nat_eq_iff of_nat_Suc)
  qed
  then show ?thesis by (simp add: first_counters_def distinct_map)
qed

text \<open>The requests that have at least taken their first action.\<close>

definition started :: "externals \<Rightarrow> task \<Rightarrow> bool" where
  "started ext t \<longleftrightarrow> inference_of ext (task_stream t) \<noteq> None \<and> task_phase t \<noteq> Accepted"

abbreviation requests :: "externals \<Rightarrow> task list \<Rightarrow> nat" where
  "requests ext ts \<equiv> length (filter (started ext) ts)"

text \<open>One task of a list changes.\<close>

lemma drawn_update:
  "i < length ts \<Longrightarrow> mset (drawn (ts[i := t])) + mset (drawn_of (ts ! i)) = mset (drawn ts) + mset (drawn_of t)"
  by (subst (2) id_take_nth_drop, assumption) (simp add: drawn_def upd_conv_take_nth_drop)

lemma requests_update:
  "i < length ts \<Longrightarrow> requests ext (ts[i := t]) + (if started ext (ts ! i) then 1 else 0) =
    requests ext ts + (if started ext t then 1 else 0)"
  by (subst (2) id_take_nth_drop, assumption) (simp add: upd_conv_take_nth_drop)

section \<open>The invariant\<close>

text \<open>\<open>logged_by\<close>: the task carried an inference request, ended, and if it answered, its answer shows the proof,
  for the tenant of the request, with a receipt for its place in the ledger.\<close>

definition logged_by :: "externals \<Rightarrow> task \<Rightarrow> nat \<Rightarrow> signed_proof \<Rightarrow> bool" where
  "logged_by ext t place pf \<longleftrightarrow>
     (\<exists>env v r. inference_of ext (task_stream t) = Some env \<and> tenant_id (statement pf) = tenant_of env \<and>
        task_phase t = Ended v r \<and>
        (v = None \<or> (\<exists>w receipt. v = Some (200, w) \<and> json_get w ''proof'' = Some (proof_to_value ext pf) \<and>
           json_get w ''receipt'' = Some receipt \<and> json_get receipt ''index'' = Some (json_usize place))))"

definition all_healthy :: "externals \<Rightarrow> task list \<Rightarrow> bool" where
  "all_healthy ext ts \<longleftrightarrow> list_all (\<lambda>t. healthy ext (task_io t)) ts"

definition served_requests :: "externals \<Rightarrow> task list \<Rightarrow> nat set" where
  "served_requests ext ts = {i. i < length ts \<and> ended (ts ! i) \<and> inference_of ext (task_stream (ts ! i)) \<noteq> None}"

text \<open>The connections that were answered with a proof.\<close>

definition proven :: "externals \<Rightarrow> task \<Rightarrow> bool" where
  "proven ext t \<longleftrightarrow> inference_of ext (task_stream t) \<noteq> None \<and> (\<exists>v r. task_phase t = Ended (Some (200, v)) r)"

definition ledger_inv :: "externals \<Rightarrow> service \<Rightarrow> nat \<Rightarrow> nat list \<Rightarrow> signed_proof list \<Rightarrow> bool" where
  "ledger_inv ext s k conns pfs \<longleftrightarrow>
     ledger_of ext (shared s) pfs \<and> counter (shared s) = word_of_nat k \<and> k \<le> requests ext (tasks s) \<and>
     length conns = length pfs \<and> distinct conns \<and>
     (\<forall>j < length pfs. conns ! j < length (tasks s) \<and> logged_by ext (tasks s ! (conns ! j)) j (pfs ! j)) \<and>
     (\<forall>i < length (tasks s). proven ext (tasks s ! i) \<longrightarrow> i \<in> set conns) \<and>
     mset (counters pfs) + mset (drawn (tasks s)) \<subseteq># mset (first_counters k) \<and>
     (all_healthy ext (tasks s) \<longrightarrow>
        mset (counters pfs) + mset (drawn (tasks s)) = mset (first_counters k) \<and> k = requests ext (tasks s) \<and>
        set conns = served_requests ext (tasks s))"

lemma ledger_inv_listening:
  "counter st = 0 \<Longrightarrow> ledger st = new_log \<Longrightarrow> ledger_inv ext (listening st) 0 [] []"
  by (simp add: ledger_inv_def listening_def ledger_of_def new_log_def drawn_def first_counters_def served_requests_def)

lemma ledger_inv_accept:
  assumes "ledger_inv ext s k conns pfs"
  shows "ledger_inv ext (s\<lparr>tasks := tasks s @ [\<lparr>task_io = io, task_stream = stream, task_phase = Accepted\<rparr>]\<rparr>) k conns pfs"
proof -
  let ?t = "\<lparr>task_io = io, task_stream = stream, task_phase = Accepted\<rparr>"
  have "drawn (tasks s @ [?t]) = drawn (tasks s)" "requests ext (tasks s @ [?t]) = requests ext (tasks s)"
    by (simp_all add: drawn_def drawn_of_def started_def)
  moreover have "served_requests ext (tasks s @ [?t]) = served_requests ext (tasks s)"
    by (auto simp: served_requests_def nth_append ended_def less_Suc_eq)
  moreover have "all_healthy ext (tasks s @ [?t]) \<Longrightarrow> all_healthy ext (tasks s)" by (simp add: all_healthy_def)
  moreover have "\<not> proven ext ?t" by (simp add: proven_def)
  ultimately show ?thesis using assms by (auto simp: ledger_inv_def nth_append less_Suc_eq)
qed

lemma logged_ended: "logged_by ext t place pf \<Longrightarrow> ended t"
  by (auto simp: logged_by_def ended_def)

lemma logged_update:
  assumes "\<forall>j < length pfs. conns ! j < length ts \<and> logged_by ext (ts ! (conns ! j)) j (pfs ! j)"
    and "\<not> ended (ts ! i)"
  shows "\<forall>j < length pfs. conns ! j < length (ts[i := t]) \<and> conns ! j \<noteq> i \<and>
    logged_by ext (ts[i := t] ! (conns ! j)) j (pfs ! j)"
  using assms logged_ended by (metis length_list_update nth_list_update_neq)

lemma all_healthy_update:
  assumes "all_healthy ext (ts[i := (ts ! i)\<lparr>task_phase := p\<rparr>])" and "i < length ts"
  shows "all_healthy ext ts \<and> healthy ext (task_io (ts ! i))"
proof -
  have "task_io (ts[i := (ts ! i)\<lparr>task_phase := p\<rparr>] ! j) = task_io (ts ! j)" if "j < length ts" for j
    using that by (cases "j = i") simp_all
  with assms show ?thesis by (auto simp: all_healthy_def list_all_length)
qed

lemma proven_update:
  assumes "\<forall>j < length ts. proven ext (ts ! j) \<longrightarrow> j \<in> set conns" and "proven ext t \<longrightarrow> i \<in> set conns"
  shows "\<forall>j < length (ts[i := t]). proven ext (ts[i := t] ! j) \<longrightarrow> j \<in> set conns"
  using assms by (metis length_list_update nth_list_update_eq nth_list_update_neq)

lemma served_update:
  assumes "i < length ts" and "\<not> ended (ts ! i)" and "task_stream t = task_stream (ts ! i)"
  shows "served_requests ext (ts[i := t]) =
    (if ended t \<and> inference_of ext (task_stream t) \<noteq> None then insert i (served_requests ext ts) else served_requests ext ts)"
  using assms by (auto simp: served_requests_def nth_list_update split: if_splits)

section \<open>Every step keeps it\<close>

text \<open>A task ends without a proof, or reads, or gives up a counter (which healthy surroundings exclude).\<close>

lemma ledger_inv_quiet:
  assumes inv: "ledger_inv ext s k conns pfs" and i: "i < length (tasks s)" "\<not> ended (tasks s ! i)"
    and t: "drawn_of ((tasks s ! i)\<lparr>task_phase := p\<rparr>) = []" "p \<noteq> Accepted"
      "\<not> proven ext ((tasks s ! i)\<lparr>task_phase := p\<rparr>)"
    and healthy: "healthy ext (task_io (tasks s ! i)) \<Longrightarrow>
      drawn_of (tasks s ! i) = [] \<and> inference_of ext (task_stream (tasks s ! i)) = None"
  shows "ledger_inv ext (s\<lparr>tasks := (tasks s)[i := (tasks s ! i)\<lparr>task_phase := p\<rparr>]\<rparr>) k conns pfs"
proof -
  let ?t = "(tasks s ! i)\<lparr>task_phase := p\<rparr>" and ?ts = "(tasks s)[i := (tasks s ! i)\<lparr>task_phase := p\<rparr>]"
  have logs: "\<forall>j < length pfs. conns ! j < length ?ts \<and> logged_by ext (?ts ! (conns ! j)) j (pfs ! j)"
    using logged_update [of pfs conns "tasks s" ext i ?t] inv i(2) by (simp add: ledger_inv_def)
  have reqs: "requests ext (tasks s) \<le> requests ext ?ts"
    using requests_update [OF i(1), of ext ?t] t(2) by (auto simp: started_def split: if_splits)
  have drawn: "mset (drawn ?ts) + mset (drawn_of (tasks s ! i)) = mset (drawn (tasks s))"
    using drawn_update [OF i(1), of ?t] t(1) by simp
  then have "mset (drawn ?ts) \<subseteq># mset (drawn (tasks s))" by (metis mset_subset_eq_add_left)
  then have sub: "mset (counters pfs) + mset (drawn ?ts) \<subseteq># mset (first_counters k)"
    using inv unfolding ledger_inv_def by (meson mset_subset_eq_mono_add subset_mset.dual_order.trans subset_mset.order_refl)
  have "mset (counters pfs) + mset (drawn ?ts) = mset (first_counters k) \<and> k = requests ext ?ts \<and>
      set conns = served_requests ext ?ts" if "all_healthy ext ?ts"
  proof -
    from all_healthy_update [OF that i(1)] healthy have h: "all_healthy ext (tasks s)" "drawn_of (tasks s ! i) = []"
      "inference_of ext (task_stream (tasks s ! i)) = None" by simp_all
    then have "requests ext ?ts = requests ext (tasks s)"
      using requests_update [OF i(1), of ext ?t] by (simp add: started_def)
    moreover have "served_requests ext ?ts = served_requests ext (tasks s)"
      using served_update [OF i, of ?t ext] h(3) by simp
    ultimately show ?thesis using inv h(1,2) drawn by (simp add: ledger_inv_def)
  qed
  moreover have "\<forall>j < length ?ts. proven ext (?ts ! j) \<longrightarrow> j \<in> set conns"
    using proven_update [of "tasks s" ext conns ?t i] inv t(3) by (simp add: ledger_inv_def)
  ultimately show ?thesis using inv logs reqs sub by (simp add: ledger_inv_def)
qed

lemma ledger_inv_draw:
  assumes inv: "ledger_inv ext s k conns pfs" and i: "i < length (tasks s)" "task_phase (tasks s ! i) = Accepted"
    and env: "inference_of ext (task_stream (tasks s ! i)) = Some env" and m: "m = counter (shared s) + 1"
  shows "ledger_inv ext (s\<lparr>shared := (shared s)\<lparr>counter := m\<rparr>,
    tasks := (tasks s)[i := (tasks s ! i)\<lparr>task_phase := Drawn d m tenant\<rparr>]\<rparr>) (Suc k) conns pfs"
proof -
  let ?t = "(tasks s ! i)\<lparr>task_phase := Drawn d m tenant\<rparr>"
  let ?ts = "(tasks s)[i := ?t]"
  have ne: "\<not> ended (tasks s ! i)" using i(2) by (simp add: ended_def)
  have n: "m = word_of_nat (Suc k)" using inv m by (simp add: ledger_inv_def add.commute)
  have logs: "\<forall>j < length pfs. conns ! j < length ?ts \<and> logged_by ext (?ts ! (conns ! j)) j (pfs ! j)"
    using logged_update [of pfs conns "tasks s" ext i ?t] inv ne by (simp add: ledger_inv_def)
  have reqs: "requests ext ?ts = Suc (requests ext (tasks s))"
    using requests_update [OF i(1), of ext ?t] i(2) env by (simp add: started_def)
  have drawn: "mset (drawn ?ts) = add_mset m (mset (drawn (tasks s)))"
    using drawn_update [OF i(1), of ?t] i(2) by (simp add: drawn_of_def)
  have served: "served_requests ext ?ts = served_requests ext (tasks s)"
    using served_update [OF i(1) ne, of ?t ext] by (simp add: ended_def)
  have proofs: "\<forall>j < length ?ts. proven ext (?ts ! j) \<longrightarrow> j \<in> set conns"
    using proven_update [of "tasks s" ext conns ?t i] inv by (simp add: ledger_inv_def proven_def)
  have "all_healthy ext ?ts \<Longrightarrow> all_healthy ext (tasks s)" using all_healthy_update i(1) by blast
  with inv logs reqs drawn n served proofs show ?thesis
    by (auto simp: ledger_inv_def simp del: of_nat_Suc)
qed

lemma ledger_inv_log:
  assumes inv: "ledger_inv ext s k conns pfs" and i: "i < length (tasks s)" "task_phase (tasks s ! i) = Drawn d n tenant"
    and pf: "signed_by ext (proof_sk (shared s)) pf" "try_canonical_json ext (proof_to_value ext pf) = Inr entry"
      "ps_counter (statement pf) = n"
    and log: "logged_by ext ((tasks s ! i)\<lparr>task_phase := p\<rparr>) (length pfs) pf"
  shows "ledger_inv ext (s\<lparr>shared := entry_logged ext (shared s) entry,
    tasks := (tasks s)[i := (tasks s ! i)\<lparr>task_phase := p\<rparr>]\<rparr>) k (conns @ [i]) (pfs @ [pf])"
proof -
  let ?t = "(tasks s ! i)\<lparr>task_phase := p\<rparr>" and ?ts = "(tasks s)[i := (tasks s ! i)\<lparr>task_phase := p\<rparr>]"
  have ne: "\<not> ended (tasks s ! i)" using i(2) by (simp add: ended_def)
  have e: "ended ?t" "inference_of ext (task_stream ?t) \<noteq> None"
    using logged_ended [OF log] log by (auto simp: logged_by_def)
  have old: "\<forall>j < length pfs. conns ! j < length ?ts \<and> conns ! j \<noteq> i \<and> logged_by ext (?ts ! (conns ! j)) j (pfs ! j)"
    using logged_update [of pfs conns "tasks s" ext i ?t] inv ne by (simp add: ledger_inv_def)
  have len: "length conns = length pfs" "distinct conns" using inv by (simp_all add: ledger_inv_def)
  from old len have dist: "distinct (conns @ [i])" by (auto simp: in_set_conv_nth)
  have logs: "\<forall>j < length (pfs @ [pf]). (conns @ [i]) ! j < length ?ts \<and>
      logged_by ext (?ts ! ((conns @ [i]) ! j)) j ((pfs @ [pf]) ! j)"
    using old log len i(1) by (auto simp: nth_append less_Suc_eq)
  have led: "ledger_of ext (entry_logged ext (shared s) entry) (pfs @ [pf])"
    using ledger_of_append [OF _ pf(1,2)] inv by (simp add: ledger_inv_def)
  have reqs: "requests ext ?ts = requests ext (tasks s)"
  proof -
    have "started ext (tasks s ! i)" "started ext ?t" using i(2) e by (auto simp: started_def ended_def)
    then show ?thesis using requests_update [OF i(1), of ext ?t] by simp
  qed
  have drawn: "mset (drawn (tasks s)) = add_mset n (mset (drawn ?ts))"
    using drawn_update [OF i(1), of ?t] i(2) e(1) by (auto simp: drawn_of_def ended_def split: phase.splits)
  have served: "served_requests ext ?ts = insert i (served_requests ext (tasks s))"
    using served_update [OF i(1) ne, of ?t ext] e by simp
  have proofs: "\<forall>j < length ?ts. proven ext (?ts ! j) \<longrightarrow> j \<in> set (conns @ [i])"
    by (rule proven_update) (use inv in \<open>auto simp: ledger_inv_def\<close>)
  have "all_healthy ext ?ts \<Longrightarrow> all_healthy ext (tasks s)" using all_healthy_update i(1) by blast
  with proofs inv led dist logs reqs drawn served pf(3) len show ?thesis
    by (auto simp: ledger_inv_def)
qed

lemma ledger_inv_run:
  assumes "run_step ext i s s'" and inv: "ledger_inv ext s k conns pfs" and "tasks_ok ext s"
    and o: "object_map (map_insert ext)"
  shows "\<exists>k conns pfs. ledger_inv ext s' k conns pfs"
  using assms(1)
proof cases
  case (run p st')
  let ?t = "tasks s ! i"
  have not_200: "map_option (inference_answer ext) r \<noteq> Some (200, w)" if "\<And>v. r \<noteq> Some (Inr v)" for r w
    using that by (auto simp: inference_answer_def split: sum.split)
  have ok: "task_ok ext ?t" using assms(3) run(2) by (simp add: tasks_ok_def list_all_length)
  show ?thesis
  proof (cases "task_phase ?t")
    case Accepted
    with run(4) have "start_task ext (task_io ?t) (shared s) (task_stream ?t) = (p, st')" by (simp add: task_step_def)
    then show ?thesis
    proof (cases rule: start_task_cases)
      case (drawn env d)
      then have "inference_of ext (task_stream ?t) = Some env" by (simp add: inference_of_def)
      from ledger_inv_draw [OF inv run(2) Accepted this refl, of d "tenant_of env"] run(1) drawn show ?thesis by auto
    next
      case (unread e)
      with ledger_inv_quiet [OF inv run(2,3), of p] Accepted run(1) show ?thesis
        by (auto simp: drawn_of_def inference_of_def proven_def)
    next
      case (query env)
      with ledger_inv_quiet [OF inv run(2,3), of p] Accepted run(1) show ?thesis
        by (auto simp: drawn_of_def inference_of_def finish_def proven_def)
    next
      case (undecided env r)
      with not_200 [of r] have "\<not> proven ext (?t\<lparr>task_phase := p\<rparr>)" by (auto simp: proven_def finish_def)
      with undecided ledger_inv_quiet [OF inv run(2,3), of p] Accepted run(1) show ?thesis
        by (auto simp: drawn_of_def inference_of_def finish_def)
    qed
  next
    case (Drawn d n tenant)
    then obtain r where r: "end_session ext (task_io ?t) n (shared s) tenant d = (r, st')"
      and p: "p = finish ext (map_option (inference_answer ext) r)"
      using run(4) by (auto simp: task_step_def split: prod.splits)
    from ok Drawn obtain env where env: "inference_of ext (task_stream ?t) = Some env" "tenant = tenant_of env"
      by (auto simp: task_ok_def)
    from ok Drawn have "d \<noteq> Aborted e" for e by (simp add: task_ok_def)
    with r show ?thesis
    proof (cases rule: end_session_cases)
      case lost
      with not_200 [of r] p have "\<not> proven ext (?t\<lparr>task_phase := p\<rparr>)" by (auto simp: proven_def finish_def)
      with lost ledger_inv_quiet [OF inv run(2,3), of p] p run(1) show ?thesis
        by (auto simp: drawn_of_def finish_def)
    next
      case (panicked pf entry)
      have "logged_by ext (?t\<lparr>task_phase := p\<rparr>) (length pfs) pf"
        using env p panicked by (simp add: logged_by_def)
      from ledger_inv_log [OF inv run(2) Drawn panicked(5,4,6) this] run(1) panicked(2) show ?thesis by auto
    next
      case (logged pf entry receipt v)
      have "ledger_of ext (shared s) pfs" using inv by (simp add: ledger_inv_def)
      then have "log_size (ledger (shared s)) = length pfs" by (rule ledger_of_size)
      with logged(2,8) o have "json_get receipt ''index'' = Some (json_usize (length pfs))"
        by (auto simp: receipt_for_def receipt_value_def json_get_obj log_size_def)
      then have "logged_by ext (?t\<lparr>task_phase := p\<rparr>) (length pfs) pf"
        using env p logged session_value_get [OF logged(7) o] by (simp add: logged_by_def inference_answer_def)
      from ledger_inv_log [OF inv run(2) Drawn logged(4,3,5) this] run(1) logged(2) show ?thesis by auto
    qed
  next
    case (Ended v r)
    with run(3) show ?thesis by (simp add: ended_def)
  qed
qed

lemma ledger_inv_reached:
  assumes "service_steps ext (listening st) s" and "counter st = 0" "ledger st = new_log" and "object_map (map_insert ext)"
  shows "\<exists>k conns pfs. ledger_inv ext s k conns pfs"
  using assms(1)
proof (induction rule: rtranclp_induct)
  case base
  show ?case using ledger_inv_listening [OF assms(2,3)] by blast
next
  case (step s s')
  then obtain k conns pfs where inv: "ledger_inv ext s k conns pfs" by blast
  have ok: "tasks_ok ext s" using service_steps_settled [OF step(1)] by simp
  from step(2) show ?case
  proof (cases rule: service_step.cases)
    case (accept io stream)
    with ledger_inv_accept [OF inv] show ?thesis by blast
  next
    case (serve i)
    from ledger_inv_run [OF this inv ok assms(4)] show ?thesis .
  qed
qed

section \<open>The refinement\<close>

text \<open>\<open>answered_with\<close>: the connection was answered with that proof, for the tenant of its request, and with a
  receipt for that place in the ledger.\<close>

definition answered_with :: "externals \<Rightarrow> task \<Rightarrow> nat \<Rightarrow> signed_proof \<Rightarrow> bool" where
  "answered_with ext t place pf \<longleftrightarrow>
     (\<exists>env v r receipt. inference_of ext (task_stream t) = Some env \<and> tenant_id (statement pf) = tenant_of env \<and>
        task_phase t = Ended (Some (200, v)) r \<and> json_get v ''proof'' = Some (proof_to_value ext pf) \<and>
        json_get v ''receipt'' = Some receipt \<and> json_get receipt ''index'' = Some (json_usize place))"

lemma logged_answered:
  assumes "logged_by ext t place pf" and "settled ext t" and "healthy ext (task_io t)"
  shows "answered_with ext t place pf"
proof -
  have "answered ext t" using assms logged_ended by (auto simp: settled_def)
  with assms(1) show ?thesis
    by (auto simp: logged_by_def answered_with_def answered_def inference_of_def split: sum.splits if_splits)
qed

lemma boot_fresh: "boot ext io fd dev = Some (Inr (st, att)) \<Longrightarrow> counter st = 0 \<and> ledger st = new_log"
  by (auto simp: boot_def new_state_def split: option.splits sum.splits prod.splits)

text \<open>C22. The ledger is the list of the proofs: after boot and whatever connections were accepted, however their
  tasks interleave, the leaves of the ledger are the hashes of signed proofs, one for each inference
  request whose connection has ended and none besides; the proof at each place is the one its connection was
  answered with, states the tenant of that request, and came with a receipt for exactly that place. The
  counters of these proofs together with those drawn by the sessions still in flight are exactly
  1, 2, 3 up to the number of requests begun, each once, though not in the order of the ledger.\<close>

theorem ledger_lists_proofs:
  assumes "boot ext io fd dev = Some (Inr (st, att))" and "service_steps ext (listening st) s"
    and "all_healthy ext (tasks s)" and "object_map (map_insert ext)"
  shows "\<exists>conns pfs. ledger_of ext (shared s) pfs \<and> length conns = length pfs \<and> distinct conns \<and>
    set conns = served_requests ext (tasks s) \<and>
    (\<forall>j < length pfs. answered_with ext (tasks s ! (conns ! j)) j (pfs ! j)) \<and>
    mset (counters pfs) + mset (drawn (tasks s)) = mset (first_counters (requests ext (tasks s)))"
proof -
  from boot_fresh [OF assms(1)] obtain k conns pfs where inv: "ledger_inv ext s k conns pfs"
    using ledger_inv_reached [OF assms(2) _ _ assms(4)] by blast
  have "answered_with ext (tasks s ! (conns ! j)) j (pfs ! j)" if "j < length pfs" for j
  proof (rule logged_answered)
    from inv that have j: "conns ! j < length (tasks s)" by (simp add: ledger_inv_def)
    then show "settled ext (tasks s ! (conns ! j))" "healthy ext (task_io (tasks s ! (conns ! j)))"
      using service_steps_settled [OF assms(2)] assms(3) by (simp_all add: all_settled_def all_healthy_def list_all_length)
    from inv that show "logged_by ext (tasks s ! (conns ! j)) j (pfs ! j)" by (simp add: ledger_inv_def)
  qed
  with inv assms(3) show ?thesis
    unfolding ledger_inv_def by (intro exI [of _ conns] exI [of _ pfs]) simp
qed

lemma demo_inference:
  "inference_of demo_server (write_framed [] [1]) = Some demo_post" "inference_of demo_server [0] = None"
proof -
  have "read_framed (write_framed [] [1]) = Inr ([1], [])"
    using enclave_frames.read_write [of "[1]" "[]"] by (simp add: max_frame_def)
  then show "inference_of demo_server (write_framed [] [1]) = Some demo_post"
    by (simp add: inference_of_def receive_def demo_server_def demo_post_def inference_route_def)
  show "inference_of demo_server [0] = None"
    by (simp add: inference_of_def receive_def read_framed_def read_exact_def)
qed

lemma run_step_streams: "run_step ext i s s' \<Longrightarrow> map task_stream (tasks s') = map task_stream (tasks s)"
  by (auto simp: map_update list_update_same_conv elim!: run_stepE)

lemma own_steps_streams: "(own_step ext)\<^sup>*\<^sup>* s s' \<Longrightarrow> map task_stream (tasks s') = map task_stream (tasks s)"
  by (induction rule: rtranclp_induct) (auto simp: own_step_def dest: run_step_streams)

text \<open>Both connections of \<open>demo_connections\<close> end, the first with its proof.\<close>

lemma demo_ended:
  obtains s' where "service_steps demo_server (listening st) s'" "all_healthy demo_server (tasks s')"
    "map task_stream (tasks s') = [write_framed [] [1], [0]]" "list_all ended (tasks s')"
proof -
  obtain n s' where run: "(own_step demo_server ^^ n) (demo_connections st) s'" "\<nexists>s''. own_step demo_server s' s''"
    using own_run_ends by blast
  from run(1) have own: "(own_step demo_server)\<^sup>*\<^sup>* (demo_connections st) s'" by (rule relpowp_imp_rtranclp)
  show thesis
  proof
    show "service_steps demo_server (listening st) s'"
      using demo_connections_reached own_steps_service [OF own] by (rule rtranclp_trans)
    have "map task_io (tasks s') = [demo_io, demo_io]"
      using own_steps_ios [OF own] by (simp add: demo_connections_def)
    then show "all_healthy demo_server (tasks s')"
      unfolding all_healthy_def by (auto simp: map_eq_Cons_conv)
    show "map task_stream (tasks s') = [write_framed [] [1], [0]]"
      using own_steps_streams [OF own] by (simp add: demo_connections_def)
    show "list_all ended (tasks s')"
      using run(2) own_step_exists [of _ s' demo_server] unfolding list_all_length own_step_def by blast
  qed
qed

theorem ledger_lists_proofs_witness:
  "\<exists>st att s' pf. boot demo_server demo_io 3 demo_nsm = Some (Inr (st, att :: attestation_out)) \<and>
    service_steps demo_server (listening st) s' \<and> ledger_of demo_server (shared s') [pf] \<and>
    answered_with demo_server (tasks s' ! 0) 0 pf \<and> ps_counter (statement pf) = 1"
proof -
  obtain st and att :: attestation_out where boot: "boot demo_server demo_io 3 demo_nsm = Some (Inr (st, att))"
    using demo_boot by blast
  obtain s' where s': "service_steps demo_server (listening st) s'" "all_healthy demo_server (tasks s')"
    "map task_stream (tasks s') = [write_framed [] [1], [0]]" "list_all ended (tasks s')" by (rule demo_ended)
  have "object_map (map_insert demo_server)" by (simp add: demo_server_def)
  from ledger_lists_proofs [OF boot s'(1,2) this] obtain conns pfs where c:
    "ledger_of demo_server (shared s') pfs" "length conns = length pfs" "distinct conns"
    "set conns = served_requests demo_server (tasks s')"
    "\<forall>j < length pfs. answered_with demo_server (tasks s' ! (conns ! j)) j (pfs ! j)"
    "mset (counters pfs) + mset (drawn (tasks s')) = mset (first_counters (requests demo_server (tasks s')))" by blast
  from s'(3) obtain t u where ts: "tasks s' = [t, u]" "task_stream t = write_framed [] [1]" "task_stream u = [0]"
    by (auto simp: map_eq_Cons_conv)
  with s'(4) have e: "ended t" "ended u" by simp_all
  have "served_requests demo_server (tasks s') = {0}"
    using ts e demo_inference by (auto simp: served_requests_def less_Suc_eq)
  with c(3,4) have "conns = [0]" by (cases conns; cases "tl conns") auto
  with c(2) obtain pf where pf: "pfs = [pf]" by (cases pfs) auto
  have "requests demo_server (tasks s') = 1" "drawn (tasks s') = []"
    using ts e demo_inference by (auto simp: started_def ended_def drawn_def drawn_of_def split: phase.splits)
  with c(6) pf have "ps_counter (statement pf) = 1" by (simp add: first_counters_def)
  with boot s'(1) c(1,5) pf \<open>conns = [0]\<close> show ?thesis by auto
qed

end
