(* ===== verification/Enclave_Concurrent.thy ===== *)
theory Enclave_Concurrent
  imports Enclave_Ledger
begin

text \<open>
  What a reader of the answers can rely on, however the tasks of the connections interleave and whatever
  their surroundings do: the counters of the proofs handed out are distinct, and all signed heads handed
  out, in receipts and by the three ledger routes, are heads of one log. Both are stated of the JSON
  values of the answers.
\<close>

section \<open>Counters\<close>

text \<open>The counter a reader finds in an answer: the field of its proof's statement.\<close>

definition counter_shown :: "json \<Rightarrow> json option" where
  "counter_shown v = Option.bind (json_get v ''proof'') (\<lambda>p.
     Option.bind (json_get p ''statement'') (\<lambda>stmt. json_get stmt ''counter''))"

lemma counter_shown_proof:
  "json_get v ''proof'' = Some (proof_to_value ext pf) \<Longrightarrow> object_map (map_insert ext) \<Longrightarrow>
   counter_shown v = Some (json_u64 (ps_counter (statement pf)))"
  by (simp add: counter_shown_def proof_to_value_def statement_to_value_def json_get_obj)

lemma distinct_submset: "mset xs \<subseteq># mset ys \<Longrightarrow> distinct ys \<Longrightarrow> distinct xs"
proof -
  assume "mset xs \<subseteq># mset ys" and "distinct ys"
  then obtain C where "mset ys = mset xs + C" by (auto simp: mset_subset_eq_exists_conv)
  moreover obtain zs where "mset zs = C" using ex_mset by blast
  ultimately have "mset ys = mset (xs @ zs)" by simp
  with \<open>distinct ys\<close> have "distinct (xs @ zs)" using mset_eq_imp_distinct_iff by blast
  then show "distinct xs" by simp
qed

text \<open>C24. Counters never repeat: for fewer than 2^64 connections, however their sessions interleave and even
  when clocks or random sources fail, the leaves of the ledger are those of signed proofs whose counters
  are distinct from each other and from the counters drawn by the sessions in flight, all of them between
  1 and the number of requests; and two connections that were answered with a proof were shown different
  counters.\<close>

theorem counters_unique:
  assumes "service_steps ext (listening st) s" and "counter st = 0" and "ledger st = new_log"
    and "object_map (map_insert ext)" and "length (tasks s) < 2 ^ 64"
  shows "(\<exists>pfs. ledger_of ext (shared s) pfs \<and> distinct (counters pfs @ drawn (tasks s)) \<and>
      set (counters pfs @ drawn (tasks s)) \<subseteq> set (first_counters (requests ext (tasks s)))) \<and>
    (\<forall>i j v w r r'. i < length (tasks s) \<and> j < length (tasks s) \<and> i \<noteq> j \<and>
      inference_of ext (task_stream (tasks s ! i)) \<noteq> None \<and> inference_of ext (task_stream (tasks s ! j)) \<noteq> None \<and>
      task_phase (tasks s ! i) = Ended (Some (200, v)) r \<and> task_phase (tasks s ! j) = Ended (Some (200, w)) r' \<longrightarrow>
      counter_shown v \<noteq> None \<and> counter_shown v \<noteq> counter_shown w)"
proof -
  obtain k conns pfs where inv: "ledger_inv ext s k conns pfs"
    using ledger_inv_reached [OF assms(1-4)] by blast
  have k: "k \<le> requests ext (tasks s)" using inv by (simp add: ledger_inv_def)
  then have "k < 2 ^ 64" using assms(5) length_filter_le [of "started ext" "tasks s"] by linarith
  moreover have sub: "mset (counters pfs @ drawn (tasks s)) \<subseteq># mset (first_counters k)"
    using inv by (simp add: ledger_inv_def)
  ultimately have dist: "distinct (counters pfs @ drawn (tasks s))"
    using distinct_submset first_counters_distinct by blast
  have "set (counters pfs @ drawn (tasks s)) \<subseteq> set (first_counters k)"
    using set_mset_mono [OF sub] by simp
  also have "\<dots> \<subseteq> set (first_counters (requests ext (tasks s)))" using k by (auto simp: first_counters_def)
  finally have range: "set (counters pfs @ drawn (tasks s)) \<subseteq> set (first_counters (requests ext (tasks s)))" .
  have shown: "\<exists>a < length pfs. conns ! a = i \<and> counter_shown v = Some (json_u64 (counters pfs ! a))"
    if "i < length (tasks s)" "inference_of ext (task_stream (tasks s ! i)) \<noteq> None"
      "task_phase (tasks s ! i) = Ended (Some (200, v)) r" for i v r
  proof -
    from that inv have "i \<in> set conns" by (auto simp: ledger_inv_def proven_def)
    then obtain a where a: "a < length pfs" "conns ! a = i" using inv by (auto simp: ledger_inv_def in_set_conv_nth)
    with inv have "logged_by ext (tasks s ! i) a (pfs ! a)" by (auto simp: ledger_inv_def)
    with that(3) have "json_get v ''proof'' = Some (proof_to_value ext (pfs ! a))" by (auto simp: logged_by_def)
    from counter_shown_proof [OF this assms(4)] a show ?thesis by auto
  qed
  have "counter_shown v \<noteq> None \<and> counter_shown v \<noteq> counter_shown w"
    if "i < length (tasks s)" "j < length (tasks s)" "i \<noteq> j"
      "inference_of ext (task_stream (tasks s ! i)) \<noteq> None" "inference_of ext (task_stream (tasks s ! j)) \<noteq> None"
      "task_phase (tasks s ! i) = Ended (Some (200, v)) r" "task_phase (tasks s ! j) = Ended (Some (200, w)) r'"
    for i j v w r r'
  proof -
    note prems = that
    obtain a where a: "a < length pfs" "conns ! a = i" "counter_shown v = Some (json_u64 (counters pfs ! a))"
      using shown [OF prems(1,4,6)] by blast
    obtain b where b: "b < length pfs" "conns ! b = j" "counter_shown w = Some (json_u64 (counters pfs ! b))"
      using shown [OF prems(2,5,7)] by blast
    from a(2) b(2) prems(3) have "a \<noteq> b" by blast
    moreover have "distinct (counters pfs)" using dist by (simp only: distinct_append)
    ultimately have "counters pfs ! a \<noteq> counters pfs ! b"
      using a(1) b(1) nth_eq_iff_index_eq [of "counters pfs" a b] by simp
    with a(3) b(3) show ?thesis by (simp add: json_u64_def)
  qed
  with inv dist range show ?thesis unfolding ledger_inv_def by blast
qed

section \<open>Signed heads\<close>

text \<open>The checkpoints a reader finds in an answer: of \<open>ledger_root\<close> and \<open>ledger_proof\<close>, both of
  \<open>ledger_consistency\<close>, and the one in the receipt of an inference request.\<close>

definition head_shown :: "json \<Rightarrow> json \<Rightarrow> bool" where
  "head_shown v w \<longleftrightarrow>
     json_get v ''checkpoint'' = Some w \<or> json_get v ''from_checkpoint'' = Some w \<or>
     json_get v ''to_checkpoint'' = Some w \<or>
     (\<exists>receipt. json_get v ''receipt'' = Some receipt \<and> json_get receipt ''checkpoint'' = Some w)"

text \<open>\<open>genuine\<close>: a checkpoint under the enclave's key whose size and root are those of a prefix of the log.\<close>

definition genuine_head :: "externals \<Rightarrow> enclave_state \<Rightarrow> signed_checkpoint \<Rightarrow> hash \<Rightarrow> bool" where
  "genuine_head ext st cp r \<longleftrightarrow> checkpoint_signed ext (proof_sk st) cp \<and>
     root_at (sha256 ext) (ledger st) (cp_size cp) = Some r \<and> cp_root_hex cp = hex_encode ext r"

definition genuine :: "externals \<Rightarrow> enclave_state \<Rightarrow> json \<Rightarrow> bool" where
  "genuine ext st w \<longleftrightarrow> (\<exists>cp r. w = checkpoint_to_value ext cp \<and> genuine_head ext st cp r)"

lemma root_at_prefix:
  "prefix (leaves l) (leaves l') \<Longrightarrow> root_at sha l n = Some r \<Longrightarrow> root_at sha l' n = Some r"
  by (auto simp: root_at_def log_size_def prefix_def split: if_splits)

lemma genuine_extended: "genuine ext st w \<Longrightarrow> extended st st' \<Longrightarrow> genuine ext st' w"
  unfolding genuine_def genuine_head_def extended_def same_keys_def using root_at_prefix by metis

lemma sign_genuine:
  "sign_checkpoint ext now st n r = Some cp \<Longrightarrow> root_at (sha256 ext) (ledger st) n = Some r \<Longrightarrow>
   genuine ext st (checkpoint_to_value ext cp)"
  using checkpoint_fields [of ext now st n r cp] sign_checkpoint_signed [of ext now st n r cp]
  by (auto simp: genuine_def genuine_head_def)

lemma current_genuine:
  "current_checkpoint ext now st = Some cp \<Longrightarrow> genuine ext st (checkpoint_to_value ext cp)"
  using sign_genuine tlog.head_now by blast

lemma receipt_genuine:
  assumes "receipt_for ext st entry receipt" and "object_map (map_insert ext)" and "json_get receipt ''checkpoint'' = Some w"
  shows "genuine ext st w"
proof -
  obtain index path cp where cp: "receipt = receipt_value ext index (leaf_hash (sha256 ext) entry) path cp"
    "cp_size cp = log_size (ledger st)" "cp_root_hex cp = hex_encode ext (root (sha256 ext) (ledger st))"
    "checkpoint_signed ext (proof_sk st) cp"
    using assms(1) by (auto simp: receipt_for_def)
  moreover from cp(1) assms(2,3) have "w = checkpoint_to_value ext cp" by (simp add: receipt_value_def json_get_obj)
  moreover have "root_at (sha256 ext) (ledger st) (log_size (ledger st)) = Some (root (sha256 ext) (ledger st))"
    by (rule tlog.head_now)
  ultimately show ?thesis unfolding genuine_def genuine_head_def by metis
qed

lemma session_genuine:
  assumes "session_value ext v pf receipt" and "receipt_for ext st entry receipt" and "object_map (map_insert ext)"
    and "head_shown v w"
  shows "genuine ext st w"
proof -
  have "json_get receipt ''checkpoint'' = Some w"
    using assms(1,3,4) by (auto simp: head_shown_def session_value_def failure_value_def success_value_def json_get_obj)
  with assms show ?thesis using receipt_genuine by blast
qed

lemma query_genuine:
  assumes "answer_query ext io st env = Some (status, v)" and o: "object_map (map_insert ext)" and "head_shown v w"
  shows "genuine ext st w"
proof -
  have none: "\<not> head_shown (error_value ext e) w" "\<not> head_shown (attestation_json att) w"
    "\<not> head_shown (obj ext [(''error'', a), (''method'', b), (''path'', c)]) w" for e att a b c
    using o by (auto simp: head_shown_def error_value_def json_get_obj attestation_json_def)
  have lroot: "genuine ext st w" if "ledger_root ext io st = Some v"
    using that assms(3) o current_genuine
    by (auto simp: ledger_root_def head_shown_def json_get_obj split: option.splits)
  have lproof: "genuine ext st w" if "ledger_proof ext io st idx = Some (Some v)" for idx
    using that assms(3) o current_genuine
    by (auto simp: ledger_proof_def head_shown_def receipt_value_def json_get_obj split: option.splits)
  have lcons: "genuine ext st w" if "ledger_consistency ext io st m = Some (Some v)" for m
    using that assms(3) o current_genuine sign_genuine
    by (auto simp: ledger_consistency_def head_shown_def consistency_value_def json_get_obj split: option.splits)
  from assms(1,3) none lroot lproof lcons show ?thesis
    unfolding answer_query_def Let_def
    by (auto split: if_splits option.splits sum.splits) (case_tac z, auto)
qed

text \<open>\<open>heads_inv\<close>: every head shown so far is genuine.\<close>

definition shows_genuine :: "externals \<Rightarrow> enclave_state \<Rightarrow> task \<Rightarrow> bool" where
  "shows_genuine ext st t \<longleftrightarrow> (\<forall>status v r w. task_phase t = Ended (Some (status, v)) r \<longrightarrow> head_shown v w \<longrightarrow> genuine ext st w)"

definition heads_inv :: "externals \<Rightarrow> service \<Rightarrow> bool" where
  "heads_inv ext s \<longleftrightarrow> list_all (shows_genuine ext (shared s)) (tasks s)"

lemma aborted_shows_nothing:
  "object_map (map_insert ext) \<Longrightarrow> inference_answer ext (Inl e) = (status, v) \<Longrightarrow> \<not> head_shown v w"
  by (auto simp: inference_answer_def head_shown_def json_get_obj)

lemma task_step_genuine:
  assumes "task_step ext t st = (p, st')" and "\<not> ended t" and "task_ok ext t" and o: "object_map (map_insert ext)"
  shows "shows_genuine ext st' (t\<lparr>task_phase := p\<rparr>)"
proof (cases "task_phase t")
  case Accepted
  with assms have "start_task ext (task_io t) st (task_stream t) = (p, st')" by (simp add: task_step_def)
  then show ?thesis
  proof (cases rule: start_task_cases)
    case (undecided env r)
    have "r = None \<or> (\<exists>e. r = Some (Inl e))" using undecided(5) by (cases r; cases "the r") auto
    with undecided(4) aborted_shows_nothing [OF o] show ?thesis by (auto simp: shows_genuine_def finish_def)
  qed (use query_genuine [OF _ o] in \<open>auto simp: shows_genuine_def finish_def\<close>)
next
  case (Drawn d n tenant)
  then obtain r where r: "end_session ext (task_io t) n st tenant d = (r, st')"
    and p: "p = finish ext (map_option (inference_answer ext) r)"
    using assms(1) by (auto simp: task_step_def split: prod.splits)
  from assms(3) Drawn have "d \<noteq> Aborted e" for e by (simp add: task_ok_def)
  with r show ?thesis
  proof (cases rule: end_session_cases)
    case lost
    have "r = None \<or> (\<exists>e. r = Some (Inl e))" using lost(2) by (cases r; cases "the r") auto
    with p aborted_shows_nothing [OF o] show ?thesis by (auto simp: shows_genuine_def finish_def)
  next
    case (logged pf entry receipt v)
    with p session_genuine [OF logged(7,8) o] show ?thesis
      by (auto simp: shows_genuine_def finish_def inference_answer_def)
  qed (use p in \<open>simp add: shows_genuine_def finish_def\<close>)
next
  case (Ended v r)
  with assms(2) show ?thesis by (simp add: ended_def)
qed

lemma shows_genuine_extended: "shows_genuine ext st t \<Longrightarrow> extended st st' \<Longrightarrow> shows_genuine ext st' t"
  unfolding shows_genuine_def using genuine_extended by blast

lemma heads_inv_reached:
  assumes "service_steps ext (listening st) s" and "object_map (map_insert ext)"
  shows "heads_inv ext s"
  using assms(1)
proof (induction rule: rtranclp_induct)
  case base
  then show ?case by (simp add: heads_inv_def listening_def)
next
  case (step s s')
  have ok: "tasks_ok ext s" using service_steps_settled [OF step(1)] by simp
  from step(2) show ?case
  proof (cases rule: service_step.cases)
    case (accept io stream)
    with step(3) show ?thesis by (simp add: heads_inv_def) (simp add: shows_genuine_def)
  next
    case (serve i)
    then show ?thesis
    proof cases
      case (run p st')
      then have "task_ok ext (tasks s ! i)" using ok by (simp add: tasks_ok_def list_all_length)
      with run task_step_genuine [OF run(4,3) _ assms(2)] task_step_extended [OF run(4)] step(3) show ?thesis
        using shows_genuine_extended by (auto simp: heads_inv_def list_all_length nth_list_update)
    qed
  qed
qed

text \<open>Two heads of one log.\<close>

lemma heads_of_one_log:
  assumes "root_at sha l m = Some r" and "root_at sha l n = Some r'" and "m \<le> n"
  shows "\<exists>path. verify_consistency sha m r n r' path"
proof -
  let ?l = "\<lparr>leaves = take n (leaves l)\<rparr>"
  have n: "n \<le> log_size l" using assms(2) by (simp add: root_at_def log_size_def split: if_splits)
  then have size: "log_size ?l = n" by (simp add: log_size_def)
  have "root sha ?l = r'" using assms(2) n by (simp add: root_def root_at_def log_size_def)
  moreover have "root_at sha ?l m = Some r"
    using assms(1,3) n by (simp add: root_at_def log_size_def min_def split: if_splits)
  ultimately show ?thesis using tlog.cons_ok [of m ?l sha] assms(3) by (auto simp: size)
qed

text \<open>C25. All published heads are consistent: every checkpoint that appears in an answer, in a receipt or as
  either head of a consistency proof, carries the enclave's signature over its size and root; any two of
  them, from whatever connections and with whatever appends between them, have a proof that
  \<open>verify_consistency\<close> accepts for the sizes and roots they state; and each is the head of a prefix of the
  present ledger, for which \<open>consistency_path\<close> returns a proof that verifies.\<close>

theorem published_heads_consistent:
  assumes "service_steps ext (listening st) s" and "counter st = 0" and "ledger st = new_log"
    and "object_map (map_insert ext)" and "length (tasks s) < 2 ^ 64"
    and "t \<in> set (tasks s)" and "task_phase t = Ended (Some (status, v)) r" and "head_shown v w"
    and "t' \<in> set (tasks s)" and "task_phase t' = Ended (Some (status', v')) r'" and "head_shown v' w'"
  shows "\<exists>cp cp' h h'. w = checkpoint_to_value ext cp \<and> w' = checkpoint_to_value ext cp' \<and>
    cp_size cp < 2 ^ 64 \<and> cp_size cp' < 2 ^ 64 \<and>
    checkpoint_signed ext (proof_sk st) cp \<and> checkpoint_signed ext (proof_sk st) cp' \<and>
    cp_root_hex cp = hex_encode ext h \<and> cp_root_hex cp' = hex_encode ext h' \<and>
    (\<exists>path. if cp_size cp \<le> cp_size cp' then verify_consistency (sha256 ext) (cp_size cp) h (cp_size cp') h' path
      else verify_consistency (sha256 ext) (cp_size cp') h' (cp_size cp) h path) \<and>
    (\<exists>path. consistency_path (sha256 ext) (ledger (shared s)) (cp_size cp) = Some (Some path) \<and>
      verify_consistency (sha256 ext) (cp_size cp) h (log_size (ledger (shared s)))
        (root (sha256 ext) (ledger (shared s))) path)"
proof -
  let ?sha = "sha256 ext" and ?l = "ledger (shared s)"
  have "heads_inv ext s" using heads_inv_reached [OF assms(1,4)] .
  with assms(6-11) have "genuine ext (shared s) w" "genuine ext (shared s) w'"
    by (auto simp: heads_inv_def list_all_iff shows_genuine_def)
  then obtain cp h cp' h' where c: "w = checkpoint_to_value ext cp" "genuine_head ext (shared s) cp h"
    "w' = checkpoint_to_value ext cp'" "genuine_head ext (shared s) cp' h'" by (auto simp: genuine_def)
  then have roots: "root_at ?sha ?l (cp_size cp) = Some h" "root_at ?sha ?l (cp_size cp') = Some h'"
    by (simp_all add: genuine_head_def)
  then have le: "cp_size cp \<le> log_size ?l" "cp_size cp' \<le> log_size ?l"
    by (simp_all add: root_at_def log_size_def split: if_splits)
  obtain k conns pfs where inv: "ledger_inv ext s k conns pfs" using ledger_inv_reached [OF assms(1-4)] by blast
  then have facts: "ledger_of ext (shared s) pfs" "length conns = length pfs" "distinct conns"
    "\<forall>j < length pfs. conns ! j < length (tasks s)" by (simp_all add: ledger_inv_def)
  then have "log_size ?l = length conns" "set conns \<subseteq> {..<length (tasks s)}"
    using ledger_of_size [OF facts(1)] by (auto simp: in_set_conv_nth)
  then have "log_size ?l \<le> length (tasks s)"
    using card_mono [of "{..<length (tasks s)}" "set conns"] facts(3) by (simp add: distinct_card)
  with le assms(5) have small: "cp_size cp < 2 ^ 64" "cp_size cp' < 2 ^ 64" by linarith+
  have "proof_sk (shared s) = proof_sk st"
    using service_steps_ok [OF assms(1) listening_ok] by (simp add: extended_def same_keys_def listening_def)
  with c(2,4) have signed: "checkpoint_signed ext (proof_sk st) cp" "cp_root_hex cp = hex_encode ext h"
    "checkpoint_signed ext (proof_sk st) cp'" "cp_root_hex cp' = hex_encode ext h'" by (simp_all add: genuine_head_def)
  have pair: "\<exists>path. if cp_size cp \<le> cp_size cp' then verify_consistency ?sha (cp_size cp) h (cp_size cp') h' path
      else verify_consistency ?sha (cp_size cp') h' (cp_size cp) h path"
    using heads_of_one_log [OF roots] heads_of_one_log [OF roots(2,1)] by (cases "cp_size cp \<le> cp_size cp'") simp_all
  have now: "\<exists>path. consistency_path ?sha ?l (cp_size cp) = Some (Some path) \<and>
      verify_consistency ?sha (cp_size cp) h (log_size ?l) (root ?sha ?l) path"
    using tlog.cons_ok [OF le(1), of ?sha] roots(1) by auto
  from c(1,3) small signed pair now show ?thesis by blast
qed

section \<open>Concrete runs\<close>

lemma draw_step:
  assumes "healthy ext (task_io (tasks s ! i))" and "i < length (tasks s)" and "task_phase (tasks s ! i) = Accepted"
    and "inference_of ext (task_stream (tasks s ! i)) = Some env"
  shows "\<exists>d. (\<forall>e. d \<noteq> Aborted e) \<and> run_step ext i s (s\<lparr>shared := (shared s)\<lparr>counter := counter (shared s) + 1\<rparr>,
    tasks := (tasks s)[i := (tasks s ! i)\<lparr>task_phase := Drawn d (counter (shared s) + 1) (tenant_of env)\<rparr>]\<rparr>)"
proof -
  from assms(4) have env: "receive ext (task_stream (tasks s ! i)) = Inr env" "inference_route env"
    by (auto simp: inference_of_def split: sum.splits if_splits)
  obtain d where d: "decide ext (shared s) (request_body ext env) = Some d" "\<forall>e. d \<noteq> Aborted e"
    using decide_healthy [OF assms(1)] by blast
  then have "task_step ext (tasks s ! i) (shared s) = (Drawn d (counter (shared s) + 1) (tenant_of env),
      (shared s)\<lparr>counter := counter (shared s) + 1\<rparr>)"
    using assms(3) env by (auto simp: task_step_def start_task_def next_counter_def split: decision.split)
  from run [OF assms(2) _ this] assms(3) d(2) show ?thesis by (auto simp: ended_def)
qed

lemma log_step:
  assumes "healthy ext (task_io (tasks s ! i))" and "i < length (tasks s)" and "task_phase (tasks s ! i) = Drawn d n tenant"
    and "\<forall>e. d \<noteq> Aborted e" and "ledger_of ext (shared s) pfs" and o: "object_map (map_insert ext)"
  shows "\<exists>s' v r pf. run_step ext i s s' \<and> tasks s' = (tasks s)[i := (tasks s ! i)\<lparr>task_phase := Ended (Some (200, v)) r\<rparr>] \<and>
    ledger_of ext (shared s') (pfs @ [pf]) \<and> ps_counter (statement pf) = n \<and> (\<exists>w. head_shown v w)"
proof -
  obtain r st' where r: "end_session ext (task_io (tasks s ! i)) n (shared s) tenant d = (r, st')" by fastforce
  have step: "run_step ext i s (s\<lparr>shared := st',
      tasks := (tasks s)[i := (tasks s ! i)\<lparr>task_phase := finish ext (map_option (inference_answer ext) r)\<rparr>]\<rparr>)"
    using run [OF assms(2), of ext] assms(3) r by (simp add: ended_def task_step_def)
  have "d \<noteq> Aborted e" for e using assms(4) by simp
  with r show ?thesis
  proof (cases rule: end_session_cases)
    case (logged pf entry receipt v)
    have "\<exists>w. head_shown v w"
      using logged(8) session_value_get [OF logged(7) o] o
      by (auto simp: receipt_for_def receipt_value_def head_shown_def json_get_obj)
    then obtain w where "head_shown v w" ..
    with step logged ledger_of_append [OF assms(5) logged(4,3)] show ?thesis
      by (intro exI conjI) (assumption, auto simp: inference_answer_def)
  qed (use assms(1,4) in auto)
qed

lemma demo_server_map [simp]: "object_map (map_insert demo_server)"
  by (simp add: demo_server_def)

lemma demo_state_boot [simp]: "counter demo_state = 0" "ledger demo_state = new_log"
  by (simp_all add: demo_state_def)

text \<open>Two inference requests; the second draws its counter later and logs its proof earlier.\<close>

lemma demo_overtaken:
  obtains s pf pf' v v' r r' w where "service_steps demo_server (listening demo_state) s"
    "ledger_of demo_server (shared s) [pf', pf]" "ps_counter (statement pf) = 1" "ps_counter (statement pf') = 2"
    "head_shown v w" "tasks s = [\<lparr>task_io = demo_io, task_stream = write_framed [] [1], task_phase = Ended (Some (200, v)) r\<rparr>,
      \<lparr>task_io = demo_io, task_stream = write_framed [] [1], task_phase = Ended (Some (200, v')) r'\<rparr>]"
proof -
  let ?t = "\<lambda>p. \<lparr>task_io = demo_io, task_stream = write_framed [] [1], task_phase = p\<rparr>"
  define s2 where "s2 = \<lparr>shared = demo_state, tasks = [?t Accepted, ?t Accepted]\<rparr>"
  have "service_step demo_server (listening demo_state) \<lparr>shared = demo_state, tasks = [?t Accepted]\<rparr>"
    using accept [of demo_server "listening demo_state"] by (simp add: listening_def)
  moreover have "service_step demo_server \<lparr>shared = demo_state, tasks = [?t Accepted]\<rparr> s2"
    using accept [of demo_server "\<lparr>shared = demo_state, tasks = [?t Accepted]\<rparr>"] by (simp add: s2_def)
  ultimately have s2: "service_steps demo_server (listening demo_state) s2"
    by (meson converse_rtranclp_into_rtranclp r_into_rtranclp)
  have l2: "ledger_of demo_server (shared s2) []" by (simp add: s2_def ledger_of_def new_log_def)
  obtain d s3 where s3: "\<forall>e. d \<noteq> Aborted e" "run_step demo_server 0 s2 s3"
    "tasks s3 = [?t (Drawn d 1 (tenant_of demo_post)), ?t Accepted]" "shared s3 = demo_state\<lparr>counter := 1\<rparr>"
    using draw_step [of demo_server s2 0 demo_post] demo_inference(1) by (auto simp: s2_def)
  obtain d' s4 where s4: "\<forall>e. d' \<noteq> Aborted e" "run_step demo_server 1 s3 s4"
    "tasks s4 = [?t (Drawn d 1 (tenant_of demo_post)), ?t (Drawn d' 2 (tenant_of demo_post))]"
    "shared s4 = demo_state\<lparr>counter := 2\<rparr>"
    using draw_step [of demo_server s3 1 demo_post] demo_inference(1) s3(3,4) by auto
  have "ledger_of demo_server (shared s4) []" by (simp add: s4(4) ledger_of_def new_log_def)
  then obtain s5 v' r' pf' where s5: "run_step demo_server 1 s4 s5"
    "tasks s5 = [?t (Drawn d 1 (tenant_of demo_post)), ?t (Ended (Some (200, v')) r')]"
    "ledger_of demo_server (shared s5) [pf']" "ps_counter (statement pf') = 2"
    using log_step [of demo_server s4 1 d' 2 "tenant_of demo_post" "[]"] s4(1,3) by auto
  then obtain s6 v r pf w where s6: "run_step demo_server 0 s5 s6"
    "tasks s6 = [?t (Ended (Some (200, v)) r), ?t (Ended (Some (200, v')) r')]"
    "ledger_of demo_server (shared s6) [pf', pf]" "ps_counter (statement pf) = 1" "head_shown v w"
    using log_step [of demo_server s5 0 d 1 "tenant_of demo_post" "[pf']"] s3(1) by auto
  have "service_steps demo_server (listening demo_state) s6"
    using s2 serve [OF s3(2)] serve [OF s4(2)] serve [OF s5(1)] serve [OF s6(1)] by (meson rtranclp.rtrancl_into_rtrancl)
  with s6(2,3,4,5) s5(4) that show thesis by blast
qed

text \<open>The ledger's order is not the counters' order, because the counter is drawn before the ledger's lock is
  taken.\<close>

lemma ledger_order_differs:
  "\<exists>s pf pf'. service_steps demo_server (listening demo_state) s \<and> ledger_of demo_server (shared s) [pf', pf] \<and>
    ps_counter (statement pf) = 1 \<and> ps_counter (statement pf') = 2"
  by (rule demo_overtaken) blast

theorem counters_unique_witness:
  "\<exists>s v v' r r'. service_steps demo_server (listening demo_state) s \<and>
    task_phase (tasks s ! 0) = Ended (Some (200, v)) r \<and> task_phase (tasks s ! 1) = Ended (Some (200, v')) r' \<and>
    counter_shown v \<noteq> None \<and> counter_shown v \<noteq> counter_shown v' \<and>
    (\<exists>pfs. ledger_of demo_server (shared s) pfs \<and> distinct (counters pfs @ drawn (tasks s)) \<and>
      set (counters pfs @ drawn (tasks s)) \<subseteq> set (first_counters (requests demo_server (tasks s))))"
proof -
  obtain s v v' r r' where s: "service_steps demo_server (listening demo_state) s"
    "tasks s = [\<lparr>task_io = demo_io, task_stream = write_framed [] [1], task_phase = Ended (Some (200, v)) r\<rparr>,
      \<lparr>task_io = demo_io, task_stream = write_framed [] [1], task_phase = Ended (Some (200, v')) r'\<rparr>]"
    by (rule demo_overtaken)
  then have len: "length (tasks s) < 2 ^ 64" by simp
  note all = counters_unique [OF s(1) demo_state_boot demo_server_map len]
  have "counter_shown v \<noteq> None \<and> counter_shown v \<noteq> counter_shown v'"
    by (rule conjunct2 [OF all, rule_format, of 0 1 v r v' r']) (simp add: s(2) demo_inference)
  with s conjunct1 [OF all] show ?thesis
    by (intro exI [of _ s] exI [of _ v] exI [of _ v'] exI [of _ r] exI [of _ r']) simp
qed

theorem published_heads_consistent_witness:
  "\<exists>s v w cp h. service_steps demo_server (listening demo_state) s \<and> head_shown v w \<and>
    w = checkpoint_to_value demo_server cp \<and> cp_size cp < 2 ^ 64 \<and>
    checkpoint_signed demo_server (proof_sk demo_state) cp \<and> cp_root_hex cp = hex_encode demo_server h \<and>
    (\<exists>path. consistency_path (sha256 demo_server) (ledger (shared s)) (cp_size cp) = Some (Some path) \<and>
      verify_consistency (sha256 demo_server) (cp_size cp) h (log_size (ledger (shared s)))
        (root (sha256 demo_server) (ledger (shared s))) path)"
proof -
  obtain s v v' r r' w where s: "service_steps demo_server (listening demo_state) s" "head_shown v w"
    "tasks s = [\<lparr>task_io = demo_io, task_stream = write_framed [] [1], task_phase = Ended (Some (200, v)) r\<rparr>,
      \<lparr>task_io = demo_io, task_stream = write_framed [] [1], task_phase = Ended (Some (200, v')) r'\<rparr>]"
    by (rule demo_overtaken)
  let ?t = "\<lparr>task_io = demo_io, task_stream = write_framed [] [1], task_phase = Ended (Some (200, v)) r\<rparr>"
  have len: "length (tasks s) < 2 ^ 64" and t: "?t \<in> set (tasks s)" and p: "task_phase ?t = Ended (Some (200, v)) r"
    using s(3) by simp_all
  from published_heads_consistent [OF s(1) demo_state_boot demo_server_map len t p s(2) t p s(2)] s(1,2)
  show ?thesis by blast
qed

end
