(* ===== verification/Enclave_Client.thy ===== *)
theory Enclave_Client
  imports Enclave_Props
begin

text \<open>
  The other direction of \<open>success_certifies\<close>: a client that follows the protocol is served. It knows only
  the attested channel key; the enclave holds the secret one.
\<close>

text \<open>The ciphertext a client with secret key \<open>client_sk\<close> makes for the attested key: the key both sides
  derive opens it to the plaintext.\<close>

definition sealed_for :: "externals \<Rightarrow> bytes \<Rightarrow> bytes \<Rightarrow> bytes \<Rightarrow> bytes \<Rightarrow> bytes \<Rightarrow> bool" where
  "sealed_for ext attested_pk client_sk nonce plaintext ciphertext \<longleftrightarrow>
     (case hkdf_expand ext (as_bytes ''pzdr-channel-v1'') (x25519_dh ext client_sk attested_pk)
         (as_bytes ''channel-aead'') 32 of
        None \<Rightarrow> False
      | Some key \<Rightarrow> aead_key_ok ext key \<and> aead_decrypt ext key nonce ciphertext [] = Some plaintext)"

text \<open>The request it sends: everything in hexadecimal, the commitment over plaintext, salt and context.\<close>

definition honest_request :: "externals \<Rightarrow> bytes \<Rightarrow> bytes \<Rightarrow> bytes \<Rightarrow> bytes \<Rightarrow> bytes \<Rightarrow> string \<Rightarrow> string option \<Rightarrow> inference_request"
where
  "honest_request ext client_sk nonce plaintext ciphertext salt context processor =
     \<lparr>client_pub_hex = hex_encode ext (x25519_public ext client_sk),
      ciphertext_hex = hex_encode ext ciphertext,
      nonce_hex = hex_encode ext nonce,
      req_commitment_hex = hex_encode ext (sha256 ext (plaintext @ salt @ as_bytes context)),
      commitment_salt_hex = hex_encode ext salt,
      commitment_context = context,
      req_processor_id = processor\<rparr>"

lemma honest_request_opens:
  assumes "\<And>b. hex_decode ext (hex_encode ext b) = Some b"
    and "x25519_dh ext (channel_sk st) (x25519_public ext client_sk) = x25519_dh ext client_sk (channel_pk st)"
    and "length (x25519_public ext client_sk) = 32" and "length nonce = 24"
    and "sealed_for ext (channel_pk st) client_sk nonce plaintext ciphertext"
  shows "open_channel ext st (honest_request ext client_sk nonce plaintext ciphertext salt context processor) = Inr plaintext"
    and "check_commitment ext (honest_request ext client_sk nonce plaintext ciphertext salt context processor) plaintext = Inr ()"
  using assms by (auto simp: open_channel_def check_commitment_def honest_request_def sealed_for_def Let_def
      split: option.splits)

text \<open>A client that follows the protocol towards the enclave in state \<open>st\<close>: the two sides agree on the
  Diffie-Hellman secret, the lengths are right, the plaintext is sealed for the attested key, the body is
  the JSON of the honest request, and the policy in force admits the plaintext for its processor.\<close>

definition follows_protocol ::
  "externals \<Rightarrow> enclave_state \<Rightarrow> bytes \<Rightarrow> bytes \<Rightarrow> bytes \<Rightarrow> bytes \<Rightarrow> bytes \<Rightarrow> bytes \<Rightarrow> string \<Rightarrow> string option \<Rightarrow> bool"
where
  "follows_protocol ext st body client_sk nonce plaintext ciphertext salt context processor \<longleftrightarrow>
     x25519_dh ext (channel_sk st) (x25519_public ext client_sk) = x25519_dh ext client_sk (channel_pk st) \<and>
     length (x25519_public ext client_sk) = 32 \<and> length nonce = 24 \<and>
     sealed_for ext (channel_pk st) client_sk nonce plaintext ciphertext \<and>
     parse_request ext body = Some (honest_request ext client_sk nonce plaintext ciphertext salt context processor) \<and>
     evaluate (enclave_policy st) plaintext (case processor of None \<Rightarrow> ''gateway'' | Some p \<Rightarrow> p) = Inr ()"

text \<open>What such a client finds in the answer: the response, and a proof that states success, its tenant, its own
  commitment and the digest of that response, with a receipt that verifies.\<close>

definition served_answer ::
  "externals \<Rightarrow> enclave_state \<Rightarrow> string \<Rightarrow> bytes \<Rightarrow> json \<Rightarrow> enclave_state \<Rightarrow> bool"
where
  "served_answer ext st tenant opening v st' \<longleftrightarrow>
     (\<exists>response bytes pf receipt.
        json_get v ''ok'' = Some (JBool True) \<and> json_get v ''model_response'' = Some response \<and>
        json_get v ''proof'' = Some (proof_to_value ext pf) \<and> json_get v ''receipt'' = Some receipt \<and>
        success (statement pf) \<and> tenant_id (statement pf) = tenant \<and> json_to_vec ext response = Some bytes \<and>
        result_hash_hex (statement pf) = Some (hex_encode ext (sha256 ext bytes)) \<and>
        commitment_hex (statement pf) = hex_encode ext (sha256 ext opening) \<and>
        session_done ext st pf receipt st')"

text \<open>A client that follows the protocol is served: its session succeeds and is logged. Hexadecimal is
  assumed to decode what it encoded.\<close>

lemma honest_client_served:
  assumes "healthy ext io" and "object_map (map_insert ext)" and "\<And>b. hex_decode ext (hex_encode ext b) = Some b"
    and "follows_protocol ext st body client_sk nonce plaintext ciphertext salt context processor"
  shows "\<exists>v st'. process_and_delete ext io st body tenant = (Some (Inr v), st') \<and>
    served_answer ext st tenant (plaintext @ salt @ as_bytes context) v st'"
proof -
  let ?req = "honest_request ext client_sk nonce plaintext ciphertext salt context processor"
  note p = assms(4) [unfolded follows_protocol_def]
  have opens: "open_channel ext st ?req = Inr plaintext" "check_commitment ext ?req plaintext = Inr ()"
    using honest_request_opens [OF assms(3)] p by blast+
  have proc: "requested_processor ?req = (case processor of None \<Rightarrow> ''gateway'' | Some p \<Rightarrow> p)"
    by (simp add: requested_processor_def honest_request_def)
  obtain response where up: "call_upstream ext plaintext = Some (Inr response)"
    using healthy_upstream [OF assms(1)] by blast
  obtain bytes where bytes: "json_to_vec ext response = Some bytes" using healthy_writer [OF assms(1)] by blast
  have served: "decide ext st body = Some (Served (req_commitment_hex ?req) (requested_processor ?req) response
      (hex_encode ext (sha256 ext bytes)))"
    using decide_admitted [OF _ opens, of body] p up bytes proc by simp
  obtain v st' where run: "process_and_delete ext io st body tenant = (Some (Inr v), st')"
    using process_healthy [OF assms(1)] by blast
  from served_session [OF run served] obtain stamp pf receipt where
    "statement pf = success_statement ext stamp st (counter st + 1) (req_commitment_hex ?req) tenant
      (requested_processor ?req) response (hex_encode ext (sha256 ext bytes))"
    "v = success_value ext io response pf receipt" "session_done ext st pf receipt st'" by blast
  with run bytes assms(2) show ?thesis
    unfolding served_answer_def
    by (intro exI [of _ v] exI [of _ st'] conjI [OF run] exI [of _ response] exI [of _ bytes] exI [of _ pf] exI [of _ receipt])
      (simp add: success_statement_def honest_request_def)
qed

definition demo_channel :: externals where
  "demo_channel = demo_ext\<lparr>x25519_dh := \<lambda>sk pk. replicate 32 9, parse_request := \<lambda>b. if b = [] then None else
     Some (honest_request demo_ext (replicate 32 2) (replicate 24 3) (as_bytes ''hello'') (as_bytes ''hello'') [1] ''c'' None)\<rparr>"

lemma demo_follows:
  "follows_protocol demo_channel demo_state [1] (replicate 32 2) (replicate 24 3) (as_bytes ''hello'') (as_bytes ''hello'')
     [1] ''c'' None"
proof -
  have "evaluate (enclave_policy demo_state) (as_bytes ''hello'') ''gateway'' = Inr ()"
    using demo_admits(2) by (simp add: requested_processor_def demo_request_def)
  then show ?thesis
    by (simp add: follows_protocol_def sealed_for_def honest_request_def demo_channel_def demo_ext_def demo_state_def)
qed

lemma demo_channel_healthy: "healthy demo_channel demo_io"
  by (simp add: healthy_def demo_io_def now_secs_def demo_channel_def demo_ext_def)

end
