(* ===== verification/Nitro.thy ===== *)
theory Nitro
  imports Nsm Ordered_Map "HOL-Library.Signed_Division"
begin

text \<open>
  The client-side verifier of \<open>crates/nitro-attestation/src/lib.rs\<close>: parsing an attestation document,
  building and checking the certificate path, the COSE signature, freshness and the measurement. The
  decoders of \<open>coset\<close>, \<open>ciborium\<close>, \<open>x509-cert\<close>, \<open>p384\<close>, \<open>hex\<close> and \<open>base64\<close> are the fields of
  \<open>nitro_crates\<close>; a decoded certificate or COSE structure is a record of the parts the code reads. A
  decoder returns the \<open>Debug\<close> text of its error on the left.
\<close>

section \<open>Decoded structures\<close>

datatype cbor =
    CInteger int
  | CBytes bytes
  | CText string
  | CArray "cbor list"
  | CMap "(cbor \<times> cbor) list"
  | COther

fun as_text :: "cbor \<Rightarrow> string option" where
  "as_text (CText s) = Some s"
| "as_text _ = None"

fun as_integer :: "cbor \<Rightarrow> int option" where
  "as_integer (CInteger i) = Some i"
| "as_integer _ = None"

fun as_byte_string :: "cbor \<Rightarrow> bytes option" where
  "as_byte_string (CBytes b) = Some b"
| "as_byte_string _ = None"

fun as_array :: "cbor \<Rightarrow> cbor list option" where
  "as_array (CArray a) = Some a"
| "as_array _ = None"

fun as_map :: "cbor \<Rightarrow> (cbor \<times> cbor) list option" where
  "as_map (CMap m) = Some m"
| "as_map _ = None"

datatype cose_alg = ES384 | OtherAlg string

record cose_sign1 =
  cose_payload :: "bytes option"
  cose_alg :: cose_alg
  cose_signature :: bytes
  cose_tbs :: bytes

type_synonym x509_name = string

record certificate =
  cert_subject :: x509_name
  cert_issuer :: x509_name
  cert_not_before :: u64
  cert_not_after :: u64
  cert_extensions :: "(string \<times> bytes) list option"
  cert_spki :: bytes
  cert_tbs_der :: "string + bytes"
  cert_signature_bits :: "bytes option"

record nitro_crates =
  cose_from_slice :: "bytes \<Rightarrow> string + cose_sign1"
  cbor_decode :: "bytes \<Rightarrow> string + cbor"
  cert_from_der :: "bytes \<Rightarrow> string + certificate"
  basic_constraints_from_der :: "bytes \<Rightarrow> string + bool \<times> nat option"
  key_usage_cert_sign :: "bytes \<Rightarrow> string + bool"
  key_from_sec1 :: "bytes \<Rightarrow> string + bytes"
  sig_from_der :: "bytes \<Rightarrow> string + bytes"
  sig_from_slice :: "bytes \<Rightarrow> string + bytes"
  p384_verify :: "bytes \<Rightarrow> bytes \<Rightarrow> bytes \<Rightarrow> bool"
  nc_hex_encode :: "bytes \<Rightarrow> string"
  nc_b64_decode :: "string \<Rightarrow> bytes option"

definition map_err :: "('e \<Rightarrow> 'f) \<Rightarrow> 'e + 'a \<Rightarrow> 'f + 'a" where
  "map_err f r = (case r of Inl e \<Rightarrow> Inl (f e) | Inr x \<Rightarrow> Inr x)"

lemma map_err_iff [result_iff]:
  "map_err f r = Inr x \<longleftrightarrow> r = Inr x"
  "map_err f r = Inl e \<longleftrightarrow> (\<exists>e'. r = Inl e' \<and> e = f e')"
  by (cases r; auto simp: map_err_def)+

lemma map_err_simps [simp]: "map_err f (Inl e) = Inl (f e)" "map_err f (Inr x) = Inr x"
  by (simp_all add: map_err_def)

section \<open>Parsing\<close>

record verified_attestation =
  va_module_id :: string
  va_digest :: string
  va_pcrs :: "(usize \<times> string) list"
  va_user_data :: "bytes option"
  va_nonce :: "bytes option"
  va_public_key :: "bytes option"
  va_timestamp_ms :: i64
  va_certificate_chain :: "bytes list"

record parse_state =
  p_module_id :: "string option"
  p_digest :: "string option"
  p_timestamp :: "i64 option"
  p_pcrs :: "(usize \<times> string) list"
  p_cert :: "bytes option"
  p_cabundle :: "bytes list"
  p_public_key :: "bytes option"
  p_user_data :: "bytes option"
  p_nonce :: "bytes option"

definition empty_parse :: parse_state where
  "empty_parse = \<lparr>p_module_id = None, p_digest = None, p_timestamp = None, p_pcrs = [], p_cert = None,
     p_cabundle = [], p_public_key = None, p_user_data = None, p_nonce = None\<rparr>"

definition insert_pcrs :: "nitro_crates \<Rightarrow> cbor \<Rightarrow> (usize \<times> string) list \<Rightarrow> (usize \<times> string) list" where
  "insert_pcrs nc v pcrs =
     (case as_map v of
        None \<Rightarrow> pcrs
      | Some pmap \<Rightarrow>
          foldl (\<lambda>pcrs (idx_v, bytes_v).
            (case (as_integer idx_v, as_byte_string bytes_v) of
               (Some idx, Some b) \<Rightarrow> btree_insert (word_of_int idx) (nc_hex_encode nc b) pcrs
             | _ \<Rightarrow> pcrs)) pcrs pmap)"

definition push_cabundle :: "cbor \<Rightarrow> bytes list \<Rightarrow> bytes list" where
  "push_cabundle v cabundle =
     (case as_array v of
        None \<Rightarrow> cabundle
      | Some arr \<Rightarrow> cabundle @ List.map_filter as_byte_string arr)"

definition parse_entry :: "nitro_crates \<Rightarrow> string \<Rightarrow> cbor \<Rightarrow> parse_state \<Rightarrow> parse_state" where
  "parse_entry nc key v s =
     (if key = ''module_id'' then s\<lparr>p_module_id := as_text v\<rparr>
      else if key = ''digest'' then s\<lparr>p_digest := as_text v\<rparr>
      else if key = ''timestamp'' then s\<lparr>p_timestamp := map_option word_of_int (as_integer v)\<rparr>
      else if key = ''pcrs'' then s\<lparr>p_pcrs := insert_pcrs nc v (p_pcrs s)\<rparr>
      else if key = ''certificate'' then s\<lparr>p_cert := as_byte_string v\<rparr>
      else if key = ''cabundle'' then s\<lparr>p_cabundle := push_cabundle v (p_cabundle s)\<rparr>
      else if key = ''public_key'' then s\<lparr>p_public_key := as_byte_string v\<rparr>
      else if key = ''user_data'' then s\<lparr>p_user_data := as_byte_string v\<rparr>
      else if key = ''nonce'' then s\<lparr>p_nonce := as_byte_string v\<rparr>
      else s)"

fun parse_entries :: "nitro_crates \<Rightarrow> (cbor \<times> cbor) list \<Rightarrow> parse_state \<Rightarrow> nitro_error + parse_state" where
  "parse_entries nc [] s = Inr s"
| "parse_entries nc ((k, v) # m) s =
     rbind (ok_or (Cbor ''non-text key in payload'') (as_text k)) (\<lambda>key.
     parse_entries nc m (parse_entry nc key v s))"

definition parse :: "nitro_crates \<Rightarrow> bytes \<Rightarrow> nitro_error + verified_attestation" where
  "parse nc doc_bytes =
     rbind (map_err Cose (cose_from_slice nc doc_bytes)) (\<lambda>cose.
     rbind (ok_or (Missing ''payload'') (cose_payload cose)) (\<lambda>payload.
     rbind (map_err Cbor (cbor_decode nc payload)) (\<lambda>value.
     rbind (ok_or (Cbor ''payload not a map'') (as_map value)) (\<lambda>m.
     rbind (parse_entries nc m empty_parse) (\<lambda>s.
     let certificate_chain = (case p_cert s of None \<Rightarrow> [] | Some c \<Rightarrow> [c]) @ p_cabundle s in
     rbind (ok_or (Missing ''module_id'') (p_module_id s)) (\<lambda>module_id.
     rbind (ok_or (Missing ''digest'') (p_digest s)) (\<lambda>digest.
     rbind (ok_or (Missing ''timestamp'') (p_timestamp s)) (\<lambda>timestamp.
     Inr \<lparr>va_module_id = module_id, va_digest = digest, va_pcrs = p_pcrs s, va_user_data = p_user_data s,
          va_nonce = p_nonce s, va_public_key = p_public_key s, va_timestamp_ms = timestamp,
          va_certificate_chain = certificate_chain\<rparr>))))))))"

section \<open>Freshness and measurement\<close>

definition measurement_pcr0 :: "verified_attestation \<Rightarrow> string option" where
  "measurement_pcr0 att = map_of (va_pcrs att) 0"

definition channel_public_key :: "verified_attestation \<Rightarrow> bytes option" where
  "channel_public_key att = va_public_key att"

definition to_ascii_lower :: "char \<Rightarrow> char" where
  "to_ascii_lower c = (let n = of_char c in if 65 \<le> n \<and> n \<le> (90 :: nat) then char_of (n + 32) else c)"

definition eq_ignore_ascii_case :: "string \<Rightarrow> string \<Rightarrow> bool" where
  "eq_ignore_ascii_case s t \<longleftrightarrow> map to_ascii_lower s = map to_ascii_lower t"

definition assert_measurement_matches :: "verified_attestation \<Rightarrow> string \<Rightarrow> nitro_error + unit" where
  "assert_measurement_matches att expected =
     (case map_of (va_pcrs att) 0 of
        Some got \<Rightarrow> if eq_ignore_ascii_case got expected then Inr () else Inl (PcrMismatch expected got)
      | None \<Rightarrow> Inl (Missing ''PCR0''))"

text \<open>64-bit signed arithmetic as in a release build: the subtraction wraps, the division truncates
  towards zero.\<close>

definition delta_secs :: "i64 \<Rightarrow> i64 \<Rightarrow> int" where
  "delta_secs now_ms timestamp_ms = sint (now_ms - timestamp_ms) sdiv 1000"

definition assert_fresh :: "verified_attestation \<Rightarrow> i64 \<Rightarrow> i64 \<Rightarrow> nitro_error + unit" where
  "assert_fresh att now_ms max_skew_secs =
     (if \<bar>delta_secs now_ms (va_timestamp_ms att)\<bar> > sint max_skew_secs
      then Inl (Expired (word_of_int (sint (va_timestamp_ms att) sdiv 1000)) max_skew_secs)
      else Inr ())"

section \<open>Certificates\<close>

definition verify_cert_validity :: "certificate \<Rightarrow> u64 \<Rightarrow> string \<Rightarrow> nitro_error + unit" where
  "verify_cert_validity cert now label =
     (if now < cert_not_before cert \<or> now > cert_not_after cert
      then Inl (CertChain (label @ '' not valid at current time''))
      else Inr ())"

abbreviation basic_constraints_oid :: string where
  "basic_constraints_oid \<equiv> ''2.5.29.19''"

abbreviation key_usage_oid :: string where
  "key_usage_oid \<equiv> ''2.5.29.15''"

definition check_basic_constraints :: "nitro_crates \<Rightarrow> bytes \<Rightarrow> nat \<Rightarrow> string \<Rightarrow> nitro_error + unit" where
  "check_basic_constraints nc extn_value subordinate_ca_count label =
     rbind (map_err (\<lambda>e. CertChain (label @ '': bad BasicConstraints: '' @ e))
       (basic_constraints_from_der nc extn_value)) (\<lambda>(ca, path_len).
     rbind (ensure ca (CertChain (label @ '': BasicConstraints present but cA=FALSE''))) (\<lambda>_.
     ensure (\<not> (case path_len of None \<Rightarrow> False | Some limit \<Rightarrow> subordinate_ca_count > limit))
       (CertChain (label @ '': pathLenConstraint exceeded''))))"

definition check_key_usage :: "nitro_crates \<Rightarrow> bytes \<Rightarrow> string \<Rightarrow> nitro_error + unit" where
  "check_key_usage nc extn_value label =
     rbind (map_err (\<lambda>e. CertChain (label @ '': bad KeyUsage: '' @ e)) (key_usage_cert_sign nc extn_value)) (\<lambda>sign.
     ensure sign (CertChain (label @ '': KeyUsage does not permit certificate signing'')))"

text \<open>The loop over the extensions; the flag says whether BasicConstraints was seen.\<close>

fun scan_extensions ::
  "nitro_crates \<Rightarrow> (string \<times> bytes) list \<Rightarrow> nat \<Rightarrow> string \<Rightarrow> bool \<Rightarrow> nitro_error + bool"
where
  "scan_extensions nc [] n label valid = Inr valid"
| "scan_extensions nc ((oid, extn_value) # exts) n label valid =
     rbind (if oid = basic_constraints_oid
            then rbind (check_basic_constraints nc extn_value n label) (\<lambda>_. Inr True)
            else Inr valid) (\<lambda>valid.
     rbind (if oid = key_usage_oid then check_key_usage nc extn_value label else Inr ()) (\<lambda>_.
     scan_extensions nc exts n label valid))"

definition assert_ca_constraints :: "nitro_crates \<Rightarrow> certificate \<Rightarrow> nat \<Rightarrow> string \<Rightarrow> nitro_error + unit" where
  "assert_ca_constraints nc cert subordinate_ca_count label =
     rbind (ok_or (CertChain (label @ '': no extensions, cannot be a CA'')) (cert_extensions cert)) (\<lambda>exts.
     rbind (scan_extensions nc exts subordinate_ca_count label False) (\<lambda>valid.
     ensure valid (CertChain (label @ '': BasicConstraints extension missing '' @
       [CHR 0xE2, CHR 0x80, CHR 0x94] @ '' not a CA''))))"

definition verify_cert_signature :: "nitro_crates \<Rightarrow> certificate \<Rightarrow> certificate \<Rightarrow> string \<Rightarrow> nitro_error + unit" where
  "verify_cert_signature nc cert issuer label =
     rbind (map_err (\<lambda>e. CertChain (label @ '' issuer SPKI not P-384: '' @ e))
       (key_from_sec1 nc (cert_spki issuer))) (\<lambda>verifying_key.
     rbind (map_err (\<lambda>e. CertChain (label @ '' tbs der: '' @ e)) (cert_tbs_der cert)) (\<lambda>tbs_der.
     rbind (ok_or (CertChain (label @ '' signature has unused bits'')) (cert_signature_bits cert)) (\<lambda>signature_bytes.
     rbind (map_err (\<lambda>e. CertChain (label @ '' signature der: '' @ e))
       (sig_from_der nc signature_bytes)) (\<lambda>sig.
     ensure (p384_verify nc verifying_key tbs_der sig)
       (CertChain (label @ '' signature verification failed''))))))"

section \<open>The certificate path\<close>

fun position :: "('a \<Rightarrow> bool) \<Rightarrow> 'a list \<Rightarrow> nat option" where
  "position P [] = None"
| "position P (x # xs) = (if P x then Some 0 else map_option Suc (position P xs))"

definition remove_at :: "nat \<Rightarrow> 'a list \<Rightarrow> 'a list" where
  "remove_at i xs = take i xs @ drop (Suc i) xs"

lemma position_Some: "position P xs = Some i \<Longrightarrow> i < length xs \<and> P (xs ! i)"
  by (induction xs arbitrary: i) (auto split: if_splits)

lemma position_None: "position P xs = None \<longleftrightarrow> (\<forall>x \<in> set xs. \<not> P x)"
  by (induction xs) auto

lemma length_remove_at: "i < length xs \<Longrightarrow> length (remove_at i xs) < length xs"
  by (simp add: remove_at_def)

text \<open>The loop that follows the issuers: the certificates of \<open>pool\<close> not used so far, the last
  certificate of the path and its index. The result is the path from that certificate on.\<close>

function build_path :: "x509_name \<Rightarrow> nat \<Rightarrow> certificate \<Rightarrow> certificate list \<Rightarrow> nitro_error + certificate list" where
  "build_path root_subject idx cert pool =
     (let issuer = cert_issuer cert in
      if issuer = root_subject then Inr [cert]
      else
        (case position (\<lambda>candidate. cert_subject candidate = issuer) pool of
           None \<Rightarrow> Inl (CertChain (''no issuer found for chain cert '' @ show_nat idx @ '': issuer='' @ issuer))
         | Some next_idx \<Rightarrow>
             rbind (build_path root_subject (Suc idx) (pool ! next_idx) (remove_at next_idx pool))
               (\<lambda>chain. Inr (cert # chain))))"
  by pat_completeness auto
termination
  by (relation "measure (\<lambda>(r, idx, cert, pool). length pool)") (auto dest: position_Some intro: length_remove_at)

declare build_path.simps [simp del]

fun check_path ::
  "nitro_crates \<Rightarrow> u64 \<Rightarrow> certificate \<Rightarrow> nat \<Rightarrow> certificate list \<Rightarrow> nitro_error + unit"
where
  "check_path nc now root idx [] = Inr ()"
| "check_path nc now root idx (cert # rest) =
     (let issuer = (case rest of [] \<Rightarrow> root | c # _ \<Rightarrow> c); label = ''chain cert '' @ show_nat idx in
      rbind (verify_cert_validity cert now label) (\<lambda>_.
      rbind (ensure (cert_issuer cert = cert_subject issuer)
        (CertChain (''issuer/subject mismatch at chain index '' @ show_nat idx @ '': issuer='' @
          cert_issuer cert @ '' subject='' @ cert_subject issuer))) (\<lambda>_.
      rbind (assert_ca_constraints nc issuer idx (''issuer of '' @ label)) (\<lambda>_.
      rbind (verify_cert_signature nc cert issuer label) (\<lambda>_.
      check_path nc now root (Suc idx) rest)))))"

fun decode_pool :: "nitro_crates \<Rightarrow> nat \<Rightarrow> bytes list \<Rightarrow> nitro_error + certificate list" where
  "decode_pool nc i [] = Inr []"
| "decode_pool nc i (der # ders) =
     rbind (map_err (\<lambda>e. CertChain (''cabundle cert '' @ show_nat i @ '': '' @ e)) (cert_from_der nc der)) (\<lambda>cert.
     rbind (decode_pool nc (Suc i) ders) (\<lambda>certs. Inr (cert # certs)))"

definition pem_decode_vec :: "nitro_crates \<Rightarrow> bytes \<Rightarrow> string + string \<times> bytes" where
  "pem_decode_vec nc pem =
     rbind (ensure (utf8_valid pem) ''not utf-8'') (\<lambda>_.
     let s = map (\<lambda>b. char_of (unat b)) pem;
         b64 = concat (filter (\<lambda>l. \<not> prefix ''-----'' l) (str_lines s)) in
     rbind (ok_or ''base64 decode'' (nc_b64_decode nc b64)) (\<lambda>der.
     Inr (''CERTIFICATE'', der)))"

text \<open>The \<open>Debug\<close> text of a string: in quotes; the decoder's messages have nothing to escape.\<close>

definition debug_str :: "string \<Rightarrow> string" where
  "debug_str s = [CHR 0x22] @ s @ [CHR 0x22]"

text \<open>\<open>clock\<close> is the time since the epoch, \<open>None\<close> when the system clock is before it.\<close>

definition verify_chain ::
  "nitro_crates \<Rightarrow> u64 option \<Rightarrow> bytes \<Rightarrow> bytes list \<Rightarrow> bytes \<Rightarrow> nitro_error + unit"
where
  "verify_chain nc clock leaf_der cabundle root_pem =
     rbind (map_err (\<lambda>e. CertChain (''leaf: '' @ e)) (cert_from_der nc leaf_der)) (\<lambda>leaf.
     rbind (decode_pool nc 0 cabundle) (\<lambda>pool.
     rbind (ensure (utf8_valid root_pem) (CertChain ''root not utf-8'')) (\<lambda>_.
     rbind (map_err (\<lambda>e. CertChain (''root pem: '' @ debug_str e)) (pem_decode_vec nc root_pem)) (\<lambda>(_, root_der).
     rbind (map_err (\<lambda>e. CertChain (''root: '' @ e)) (cert_from_der nc root_der)) (\<lambda>root.
     rbind (build_path (cert_subject root) 0 leaf pool) (\<lambda>chain.
     rbind (ok_or (CertChain ''system clock before unix epoch'') clock) (\<lambda>now.
     rbind (check_path nc now root 0 chain) (\<lambda>_.
     verify_cert_validity root now ''pinned AWS root''))))))))"

definition verify_cose_signature :: "nitro_crates \<Rightarrow> cose_sign1 \<Rightarrow> bytes \<Rightarrow> nitro_error + unit" where
  "verify_cose_signature nc cose leaf_der =
     rbind (case cose_alg cose of
         ES384 \<Rightarrow> Inr ()
       | OtherAlg other \<Rightarrow> Inl (Cose (''protected header alg must be ES384, got '' @ other))) (\<lambda>_.
     rbind (map_err (\<lambda>e. CertChain (''leaf: '' @ e)) (cert_from_der nc leaf_der)) (\<lambda>cert.
     rbind (map_err (\<lambda>e. Cose (''spki not P-384: '' @ e)) (key_from_sec1 nc (cert_spki cert))) (\<lambda>vk.
     let tbs = cose_tbs cose in
     rbind (map_err (\<lambda>e. Cose (''sig parse: '' @ e)) (sig_from_slice nc (cose_signature cose))) (\<lambda>sig.
     ensure (p384_verify nc vk tbs sig) Signature))))"

definition verify_signature ::
  "nitro_crates \<Rightarrow> u64 option \<Rightarrow> bytes \<Rightarrow> verified_attestation \<Rightarrow> bytes \<Rightarrow> nitro_error + unit"
where
  "verify_signature nc clock doc_bytes parsed aws_root_pem =
     rbind (map_err Cose (cose_from_slice nc doc_bytes)) (\<lambda>cose.
     case va_certificate_chain parsed of
       [] \<Rightarrow> Inl (Missing ''leaf certificate'')
     | leaf_der # cabundle \<Rightarrow>
         rbind (verify_chain nc clock leaf_der cabundle aws_root_pem) (\<lambda>_.
         verify_cose_signature nc cose leaf_der))"

definition parse_and_verify ::
  "nitro_crates \<Rightarrow> u64 option \<Rightarrow> bytes \<Rightarrow> bytes \<Rightarrow> i64 \<Rightarrow> i64 \<Rightarrow> string option \<Rightarrow> nitro_error + verified_attestation"
where
  "parse_and_verify nc clock doc_bytes aws_root_pem now_ms max_skew_secs expected_pcr0_hex =
     rbind (parse nc doc_bytes) (\<lambda>parsed.
     rbind (verify_signature nc clock doc_bytes parsed aws_root_pem) (\<lambda>_.
     rbind (assert_fresh parsed now_ms max_skew_secs) (\<lambda>_.
     rbind (case expected_pcr0_hex of None \<Rightarrow> Inr () | Some pcr0 \<Rightarrow> assert_measurement_matches parsed pcr0) (\<lambda>_.
     Inr parsed))))"

end
