(* ===== verification/Nitro_Props.thy ===== *)
theory Nitro_Props
  imports Nitro "HOL-Library.Multiset"
begin

text \<open>
  What an accepted attestation document guarantees: the chain of trust to the pinned root as a
  declarative statement, its independence of the order of the bundle, the freshness window in
  milliseconds, the measurement and the parsing of a document's fields.
\<close>

section \<open>The declarative reading of the checks\<close>

definition valid_at :: "u64 \<Rightarrow> certificate \<Rightarrow> bool" where
  "valid_at now cert \<longleftrightarrow> cert_not_before cert \<le> now \<and> now \<le> cert_not_after cert"

definition is_ca :: "nitro_crates \<Rightarrow> certificate \<Rightarrow> nat \<Rightarrow> bool" where
  "is_ca nc cert below \<longleftrightarrow> (\<exists>exts. cert_extensions cert = Some exts \<and>
     (\<exists>v. (basic_constraints_oid, v) \<in> set exts) \<and>
     (\<forall>v. (basic_constraints_oid, v) \<in> set exts \<longrightarrow>
        (\<exists>limit. basic_constraints_from_der nc v = Inr (True, limit) \<and> (\<forall>l. limit = Some l \<longrightarrow> below \<le> l))) \<and>
     (\<forall>v. (key_usage_oid, v) \<in> set exts \<longrightarrow> key_usage_cert_sign nc v = Inr True))"

definition signed_by_issuer :: "nitro_crates \<Rightarrow> certificate \<Rightarrow> certificate \<Rightarrow> bool" where
  "signed_by_issuer nc cert issuer \<longleftrightarrow> (\<exists>key tbs bits sig. key_from_sec1 nc (cert_spki issuer) = Inr key \<and>
     cert_tbs_der cert = Inr tbs \<and> cert_signature_bits cert = Some bits \<and> sig_from_der nc bits = Inr sig \<and>
     p384_verify nc key tbs sig)"

definition link_ok :: "nitro_crates \<Rightarrow> u64 \<Rightarrow> nat \<Rightarrow> certificate \<Rightarrow> certificate \<Rightarrow> bool" where
  "link_ok nc now idx cert issuer \<longleftrightarrow> valid_at now cert \<and> cert_issuer cert = cert_subject issuer \<and>
     is_ca nc issuer idx \<and> signed_by_issuer nc cert issuer"

text \<open>A path from its first certificate to the root: each certificate with the next one, the last with
  the root.\<close>

definition trusted_path :: "nitro_crates \<Rightarrow> u64 \<Rightarrow> certificate \<Rightarrow> nat \<Rightarrow> certificate list \<Rightarrow> bool" where
  "trusted_path nc now root k chain \<longleftrightarrow>
     (\<forall>i < length chain. link_ok nc now (k + i) (chain ! i) ((chain @ [root]) ! Suc i))"

lemma trusted_path_Nil [simp]: "trusted_path nc now root k []"
  by (simp add: trusted_path_def)

lemma trusted_path_Cons:
  "trusted_path nc now root k (cert # rest) \<longleftrightarrow>
     link_ok nc now k cert (case rest of [] \<Rightarrow> root | c # _ \<Rightarrow> c) \<and> trusted_path nc now root (Suc k) rest"
  unfolding trusted_path_def by (cases rest) (simp_all add: All_less_Suc2)

lemma verify_cert_validity_iff [result_iff]: "verify_cert_validity cert now label = Inr u \<longleftrightarrow> valid_at now cert"
  by (auto simp: verify_cert_validity_def valid_at_def not_less)

lemma check_basic_constraints_iff [result_iff]:
  "check_basic_constraints nc v n label = Inr u \<longleftrightarrow>
   (\<exists>limit. basic_constraints_from_der nc v = Inr (True, limit) \<and> (\<forall>l. limit = Some l \<longrightarrow> n \<le> l))"
  by (fastforce simp: check_basic_constraints_def result_iff not_less split: option.splits)

lemma check_key_usage_iff [result_iff]:
  "check_key_usage nc v label = Inr u \<longleftrightarrow> key_usage_cert_sign nc v = Inr True"
  by (auto simp: check_key_usage_def result_iff)

lemma scan_extensions_iff:
  "scan_extensions nc exts n label valid = Inr b \<longleftrightarrow>
   (b \<longleftrightarrow> valid \<or> (\<exists>v. (basic_constraints_oid, v) \<in> set exts)) \<and>
   (\<forall>v. (basic_constraints_oid, v) \<in> set exts \<longrightarrow>
      (\<exists>limit. basic_constraints_from_der nc v = Inr (True, limit) \<and> (\<forall>l. limit = Some l \<longrightarrow> n \<le> l))) \<and>
   (\<forall>v. (key_usage_oid, v) \<in> set exts \<longrightarrow> key_usage_cert_sign nc v = Inr True)"
proof (induction exts arbitrary: valid)
  case (Cons e exts)
  obtain oid v where e: "e = (oid, v)" by fastforce
  show ?case
    unfolding e by (cases "oid = basic_constraints_oid"; cases "oid = key_usage_oid")
      (auto simp: result_iff Cons.IH)
qed auto

lemma assert_ca_constraints_iff [result_iff]:
  "assert_ca_constraints nc cert n label = Inr u \<longleftrightarrow> is_ca nc cert n"
  by (auto simp: assert_ca_constraints_def is_ca_def result_iff scan_extensions_iff)

lemma verify_cert_signature_iff [result_iff]:
  "verify_cert_signature nc cert issuer label = Inr u \<longleftrightarrow> signed_by_issuer nc cert issuer"
  by (auto simp: verify_cert_signature_def signed_by_issuer_def result_iff)

lemma check_path_iff: "check_path nc now root k chain = Inr u \<longleftrightarrow> trusted_path nc now root k chain"
  by (induction chain arbitrary: k)
    (auto simp: trusted_path_Cons link_ok_def result_iff Let_def)

section \<open>The path\<close>

lemma mset_remove_at: "i < length xs \<Longrightarrow> mset (remove_at i xs) = mset xs - {# xs ! i #}"
  by (metis add_mset_remove_trivial id_take_nth_drop mset.simps(2) mset_append remove_at_def
      union_mset_add_mset_right)

lemma build_path_shape:
  "build_path r idx cert pool = Inr chain \<Longrightarrow>
   (\<exists>rest. chain = cert # rest \<and> mset rest \<subseteq># mset pool) \<and> cert_issuer (last chain) = r"
proof (induction r idx cert pool arbitrary: chain rule: build_path.induct)
  case (1 r idx cert pool)
  show ?case
  proof (cases "cert_issuer cert = r")
    case True
    with "1.prems" show ?thesis by (auto simp: build_path.simps [of r idx cert pool])
  next
    case False
    with "1.prems" obtain i chain' where
      i: "position (\<lambda>candidate. cert_subject candidate = cert_issuer cert) pool = Some i"
      and rec: "build_path r (Suc idx) (pool ! i) (remove_at i pool) = Inr chain'" "chain = cert # chain'"
      by (auto simp: build_path.simps [of r idx cert pool] result_iff Let_def split: option.splits)
    from "1.IH" [OF refl False i rec(1)] obtain rest where
      rest: "chain' = pool ! i # rest" "mset rest \<subseteq># mset (remove_at i pool)" "cert_issuer (last chain') = r"
      by blast
    from i have lt: "i < length pool" using position_Some by blast
    then have "mset chain' \<subseteq># mset pool"
      using rest(1,2) by (simp add: mset_remove_at insert_subset_eq_iff)
    with rest rec(2) show ?thesis by simp
  qed
qed

lemma build_path_perm:
  "mset pool = mset pool' \<Longrightarrow> distinct (map cert_subject pool) \<Longrightarrow>
   build_path r idx cert pool = build_path r idx cert pool'"
proof (induction r idx cert pool arbitrary: pool' rule: build_path.induct)
  case (1 r idx cert pool)
  let ?P = "\<lambda>candidate. cert_subject candidate = cert_issuer cert"
  have set: "set pool = set pool'" using "1.prems"(1) by (rule mset_eq_setD)
  show ?case
  proof (cases "cert_issuer cert = r \<or> position ?P pool = None")
    case True
    then have "cert_issuer cert = r \<or> (position ?P pool = None \<and> position ?P pool' = None)"
      by (auto simp: position_None set)
    then show ?thesis
      by (auto simp: build_path.simps [of r idx cert pool] build_path.simps [of r idx cert pool'] Let_def)
  next
    case False
    then obtain i where i: "position ?P pool = Some i" by auto
    then have "position ?P pool' \<noteq> None" using position_Some [OF i] nth_mem [of i pool] by (auto simp: position_None set)
    then obtain j where j: "position ?P pool' = Some j" by auto
    have lt: "i < length pool" "j < length pool'" and P: "?P (pool ! i)" "?P (pool' ! j)"
      using position_Some [OF i] position_Some [OF j] by simp_all
    have "pool ! i \<in> set pool" "pool' ! j \<in> set pool" using nth_mem [OF lt(1)] nth_mem [OF lt(2)] unfolding set by simp_all
    moreover from "1.prems"(2) have "inj_on cert_subject (set pool)" by (simp add: distinct_map)
    moreover have "cert_subject (pool ! i) = cert_subject (pool' ! j)" using P by simp
    ultimately have same: "pool ! i = pool' ! j" by (blast dest: inj_onD)
    have "mset (remove_at i pool) = mset (remove_at j pool')"
      using "1.prems"(1) lt same by (simp add: mset_remove_at)
    moreover have "distinct (map cert_subject (remove_at i pool))"
    proof -
      have "mset (map cert_subject pool) = mset (map cert_subject (pool ! i # remove_at i pool))"
        using lt(1) mset_remove_at [OF lt(1)] nth_mem_mset [OF lt(1)] by (simp add: image_mset_Diff)
      with "1.prems"(2) have "distinct (map cert_subject (pool ! i # remove_at i pool))"
        by (metis mset_eq_imp_distinct_iff)
      then show ?thesis by simp
    qed
    ultimately have "build_path r (Suc idx) (pool ! i) (remove_at i pool) =
        build_path r (Suc idx) (pool ! i) (remove_at j pool')"
      using False by (intro "1.IH" [OF refl _ i]) auto
    with i j same False show ?thesis
      by (simp add: build_path.simps [of r idx cert pool] build_path.simps [of r idx cert pool'] Let_def)
  qed
qed

lemma decode_pool_iff:
  "decode_pool nc i ders = Inr pool \<longleftrightarrow> list_all2 (\<lambda>der c. cert_from_der nc der = Inr c) ders pool"
  by (induction ders arbitrary: i pool) (auto simp: result_iff list_all2_Cons1)

lemma verify_chain_iff:
  "verify_chain nc clock leaf_der cabundle root_pem = Inr u \<longleftrightarrow>
   (\<exists>leaf pool label root_der root chain now. cert_from_der nc leaf_der = Inr leaf \<and>
      list_all2 (\<lambda>der c. cert_from_der nc der = Inr c) cabundle pool \<and> utf8_valid root_pem \<and>
      pem_decode_vec nc root_pem = Inr (label, root_der) \<and> cert_from_der nc root_der = Inr root \<and>
      build_path (cert_subject root) 0 leaf pool = Inr chain \<and> clock = Some now \<and>
      trusted_path nc now root 0 chain \<and> valid_at now root)"
  unfolding verify_chain_def
  by (auto simp: result_iff decode_pool_iff check_path_iff; blast)

section \<open>Properties\<close>

text \<open>C27. What an accepted document guarantees: if \<open>parse_and_verify\<close> succeeds, the document declares
  ES384 and its signature verifies under the key of its first certificate; from that certificate a path
  of certificates of the document's own bundle, each used at most once, leads to the pinned root; on the
  path every certificate is valid now, names the next as its issuer, is signed by it, and every issuer is
  a CA that may sign certificates at its depth; the root is valid; the document is fresh; and the expected
  measurement, if one is given, is the document's PCR0.\<close>

theorem accepted_document_trusted:
  assumes "parse_and_verify nc clock doc root_pem now_ms max_skew expected = Inr att"
  shows "\<exists>cose leaf_der cabundle leaf pool label root_der root path now key sig.
    cose_from_slice nc doc = Inr cose \<and> parse nc doc = Inr att \<and> va_certificate_chain att = leaf_der # cabundle \<and>
    cert_from_der nc leaf_der = Inr leaf \<and>
    list_all2 (\<lambda>der c. cert_from_der nc der = Inr c) cabundle pool \<and>
    pem_decode_vec nc root_pem = Inr (label, root_der) \<and> cert_from_der nc root_der = Inr root \<and>
    mset path \<subseteq># mset pool \<and> clock = Some now \<and>
    trusted_path nc now root 0 (leaf # path) \<and> valid_at now root \<and>
    cose_alg cose = ES384 \<and> key_from_sec1 nc (cert_spki leaf) = Inr key \<and>
    sig_from_slice nc (cose_signature cose) = Inr sig \<and> p384_verify nc key (cose_tbs cose) sig \<and>
    \<bar>delta_secs now_ms (va_timestamp_ms att)\<bar> \<le> sint max_skew \<and>
    (expected = None \<or> (\<exists>pcr0 got. expected = Some pcr0 \<and> measurement_pcr0 att = Some got \<and>
       eq_ignore_ascii_case got pcr0))"
proof -
  from assms have parsed: "parse nc doc = Inr att"
    and sig: "verify_signature nc clock doc att root_pem = Inr ()"
    and fresh: "assert_fresh att now_ms max_skew = Inr ()"
    and pcr: "(case expected of None \<Rightarrow> Inr () | Some pcr0 \<Rightarrow> assert_measurement_matches att pcr0) = Inr ()"
    by (auto simp: parse_and_verify_def result_iff)
  from sig obtain cose leaf_der cabundle where cose: "cose_from_slice nc doc = Inr cose"
    "va_certificate_chain att = leaf_der # cabundle"
    and chain: "verify_chain nc clock leaf_der cabundle root_pem = Inr ()"
    and cs: "verify_cose_signature nc cose leaf_der = Inr ()"
    by (cases "va_certificate_chain att") (auto simp: verify_signature_def result_iff)
  from chain obtain leaf pool label root_der root full now where path:
    "cert_from_der nc leaf_der = Inr leaf" "list_all2 (\<lambda>der c. cert_from_der nc der = Inr c) cabundle pool"
    "pem_decode_vec nc root_pem = Inr (label, root_der)" "cert_from_der nc root_der = Inr root"
    "build_path (cert_subject root) 0 leaf pool = Inr full" "clock = Some now"
    "trusted_path nc now root 0 full" "valid_at now root"
    unfolding verify_chain_iff by blast
  from build_path_shape [OF path(5)] obtain rest where rest: "full = leaf # rest" "mset rest \<subseteq># mset pool"
    by blast
  from cs path(1) obtain key s where "cose_alg cose = ES384" "key_from_sec1 nc (cert_spki leaf) = Inr key"
    "sig_from_slice nc (cose_signature cose) = Inr s" "p384_verify nc key (cose_tbs cose) s"
    by (auto simp: verify_cose_signature_def result_iff Let_def split: cose_alg.splits)
  moreover have "\<bar>delta_secs now_ms (va_timestamp_ms att)\<bar> \<le> sint max_skew"
    using fresh by (simp add: assert_fresh_def split: if_splits)
  moreover have "expected = None \<or> (\<exists>pcr0 got. expected = Some pcr0 \<and> measurement_pcr0 att = Some got \<and>
       eq_ignore_ascii_case got pcr0)"
    using pcr by (auto simp: assert_measurement_matches_def measurement_pcr0_def split: option.splits if_splits)
  ultimately show ?thesis using parsed cose path(1-4,6-8) rest by blast
qed

text \<open>C28. For a bundle whose certificates have pairwise different subjects the order does not matter: AWS
  documents carry their bundle root first, others leaf first, and the chain check accepts one order exactly
  when it accepts the other. The chain check does not itself ask for different subjects; with two
  certificates of one subject it follows the first, and then the order decides (\<open>bundle_order_matters\<close>).\<close>

theorem bundle_order_irrelevant:
  assumes "mset cabundle = mset cabundle'"
    and "\<And>pool. list_all2 (\<lambda>der c. cert_from_der nc der = Inr c) cabundle pool \<Longrightarrow> distinct (map cert_subject pool)"
  shows "verify_chain nc clock leaf_der cabundle root_pem = Inr () \<longleftrightarrow>
    verify_chain nc clock leaf_der cabundle' root_pem = Inr ()"
proof -
  let ?dec = "\<lambda>der c. cert_from_der nc der = Inr c"
  have pools: "pool = map (\<lambda>der. projr (cert_from_der nc der)) ders" if "list_all2 ?dec ders pool" for ders pool
    using that by (induction ders arbitrary: pool) (auto simp: list_all2_Cons1)
  have chain: "build_path r 0 leaf pool = build_path r 0 leaf pool'"
    if "list_all2 ?dec cabundle pool" "list_all2 ?dec cabundle' pool'" for r leaf pool pool'
  proof (rule build_path_perm)
    have "mset pool = image_mset (\<lambda>der. projr (cert_from_der nc der)) (mset cabundle)"
      "mset pool' = image_mset (\<lambda>der. projr (cert_from_der nc der)) (mset cabundle')"
      using pools [OF that(1)] pools [OF that(2)] by (metis mset_map)+
    then show "mset pool = mset pool'" using assms(1) by simp
  qed (rule assms(2) [OF that(1)])
  have decodes: "(\<exists>pool. list_all2 ?dec ders pool) \<longleftrightarrow> (\<forall>der \<in> set ders. \<exists>c. ?dec der c)" for ders
    by (induction ders) (auto simp: list_all2_Cons1)
  have "(\<exists>pool. list_all2 ?dec cabundle pool) \<longleftrightarrow> (\<exists>pool. list_all2 ?dec cabundle' pool)"
    unfolding decodes using assms(1) mset_eq_setD by metis
  moreover have "verify_chain nc clock leaf_der B' root_pem = Inr ()"
    if ok: "verify_chain nc clock leaf_der B root_pem = Inr ()" and ex: "\<exists>pool'. list_all2 ?dec B' pool'"
      and eq: "\<And>r leaf pool pool'. list_all2 ?dec B pool \<Longrightarrow> list_all2 ?dec B' pool' \<Longrightarrow>
        build_path r 0 leaf pool = build_path r 0 leaf pool'" for B B'
  proof -
    obtain leaf pool label root_der root path now where p: "cert_from_der nc leaf_der = Inr leaf"
      "list_all2 ?dec B pool" "utf8_valid root_pem" "pem_decode_vec nc root_pem = Inr (label, root_der)"
      "cert_from_der nc root_der = Inr root" "build_path (cert_subject root) 0 leaf pool = Inr path"
      "clock = Some now" "trusted_path nc now root 0 path" "valid_at now root"
      using ok unfolding verify_chain_iff by blast
    obtain pool' where pool': "list_all2 ?dec B' pool'" using ex by blast
    with p(2,6) eq have "build_path (cert_subject root) 0 leaf pool' = Inr path" by metis
    with p pool' show ?thesis unfolding verify_chain_iff by blast
  qed
  moreover have "\<exists>pool. list_all2 ?dec B pool" if "verify_chain nc clock leaf_der B root_pem = Inr ()" for B
    using that unfolding verify_chain_iff by blast
  ultimately show ?thesis using chain by metis
qed

lemma abs_sdiv_1000: "\<bar>x sdiv 1000\<bar> = \<bar>x\<bar> div (1000 :: int)"
  unfolding signed_divide_int_def
  by (cases "x = 0") (simp_all add: abs_mult abs_sgn_eq pos_imp_zdiv_nonneg_iff)

lemma div_1000_le: "y div 1000 \<le> s \<longleftrightarrow> y < (s + 1) * (1000 :: int)"
proof -
  have y: "y = 1000 * (y div 1000) + y mod 1000" "0 \<le> y mod 1000" "y mod 1000 < 1000" by simp_all
  have s: "(s + 1) * 1000 = 1000 * s + 1000" by simp
  show ?thesis
  proof
    assume "y div 1000 \<le> s"
    with y show "y < (s + 1) * 1000" unfolding s by linarith
  next
    assume "y < (s + 1) * 1000"
    with y show "y div 1000 \<le> s" unfolding s by linarith
  qed
qed

text \<open>C29. The freshness window, in milliseconds: for timestamps whose difference does not overflow and a
  window of \<open>s\<close> seconds, a document is accepted exactly when the difference is less than \<open>s + 1\<close> seconds:
  the division truncates towards zero, so up to 999 ms beyond the window pass, in both directions.\<close>

theorem freshness_window:
  assumes "- (2 ^ 63) \<le> sint now_ms - sint (va_timestamp_ms att)"
    and "sint now_ms - sint (va_timestamp_ms att) < 2 ^ 63" and "0 \<le> sint max_skew"
  shows "assert_fresh att now_ms max_skew = Inr () \<longleftrightarrow>
    \<bar>sint now_ms - sint (va_timestamp_ms att)\<bar> < (sint max_skew + 1) * 1000"
proof -
  have "sint (now_ms - va_timestamp_ms att) = sint now_ms - sint (va_timestamp_ms att)"
    using sint_word_ariths(2) [of now_ms "va_timestamp_ms att"] signed_take_bit_int_eq_self [OF assms(1,2)] by simp
  then have "\<bar>delta_secs now_ms (va_timestamp_ms att)\<bar> =
      \<bar>sint now_ms - sint (va_timestamp_ms att)\<bar> div 1000"
    by (simp add: delta_secs_def abs_sdiv_1000)
  moreover have "assert_fresh att now_ms max_skew = Inr () \<longleftrightarrow>
      \<bar>delta_secs now_ms (va_timestamp_ms att)\<bar> \<le> sint max_skew"
    by (auto simp: assert_fresh_def)
  ultimately show ?thesis by (simp only: div_1000_le)
qed

section \<open>A concrete document\<close>

definition demo_cert :: "x509_name \<Rightarrow> x509_name \<Rightarrow> certificate" where
  "demo_cert subj iss = \<lparr>cert_subject = subj, cert_issuer = iss, cert_not_before = 0, cert_not_after = 100,
     cert_extensions = Some [(basic_constraints_oid, [])], cert_spki = [], cert_tbs_der = Inr [],
     cert_signature_bits = Some []\<rparr>"

definition opt_bytes :: "bytes option \<Rightarrow> cbor" where
  "opt_bytes b = (case b of None \<Rightarrow> COther | Some x \<Rightarrow> CBytes x)"

text \<open>The payload the NSM writes: one text key per field, absent optional fields as null.\<close>

definition document_map ::
  "string \<Rightarrow> string \<Rightarrow> i64 \<Rightarrow> (nat \<times> bytes) list \<Rightarrow> bytes \<Rightarrow> bytes list \<Rightarrow> bytes option \<Rightarrow> bytes option \<Rightarrow> bytes option \<Rightarrow>
   (cbor \<times> cbor) list"
where
  "document_map module_id digest timestamp pcrs cert cabundle public_key user_data nonce =
     [(CText ''module_id'', CText module_id), (CText ''digest'', CText digest),
      (CText ''timestamp'', CInteger (sint timestamp)),
      (CText ''pcrs'', CMap (map (\<lambda>(i, b). (CInteger (int i), CBytes b)) pcrs)),
      (CText ''certificate'', CBytes cert), (CText ''cabundle'', CArray (map CBytes cabundle)),
      (CText ''public_key'', opt_bytes public_key), (CText ''user_data'', opt_bytes user_data),
      (CText ''nonce'', opt_bytes nonce)]"

definition demo_nitro :: nitro_crates where
  "demo_nitro =
     \<lparr>cose_from_slice = (\<lambda>_. Inr \<lparr>cose_payload = Some [], cose_alg = ES384, cose_signature = [], cose_tbs = []\<rparr>),
      cbor_decode = (\<lambda>_. Inr (CMap (document_map ''m'' ''SHA384'' 5000 [(0, [0x61])] [1] [[3], [2]] None None None))),
      cert_from_der = (\<lambda>d. if d = [1] then Inr (demo_cert ''L'' ''I'')
        else if d = [2] then Inr (demo_cert ''I'' ''R'') else Inr (demo_cert ''R'' ''R'')),
      basic_constraints_from_der = (\<lambda>_. Inr (True, None)), key_usage_cert_sign = (\<lambda>_. Inr True),
      key_from_sec1 = Inr, sig_from_der = Inr, sig_from_slice = Inr, p384_verify = (\<lambda>_ _ _. True),
      nc_hex_encode = map (\<lambda>b. char_of (unat b)), nc_b64_decode = (\<lambda>_. Some [])\<rparr>"

definition demo_att :: verified_attestation where
  "demo_att = \<lparr>va_module_id = ''m'', va_digest = ''SHA384'', va_pcrs = [(0, ''a'')], va_user_data = None,
     va_nonce = None, va_public_key = None, va_timestamp_ms = 5000, va_certificate_chain = [[1], [3], [2]]\<rparr>"

lemma as_byte_string_opt [simp]: "as_byte_string (opt_bytes b) = b"
  by (cases b) (simp_all add: opt_bytes_def)

lemma map_filter_bytes [simp]: "List.map_filter as_byte_string (map CBytes bs) = bs"
  by (induction bs) (simp_all add: List.map_filter_simps)

lemma parse_entry_simps:
  "parse_entry nc ''module_id'' v s = s\<lparr>p_module_id := as_text v\<rparr>"
  "parse_entry nc ''digest'' v s = s\<lparr>p_digest := as_text v\<rparr>"
  "parse_entry nc ''timestamp'' v s = s\<lparr>p_timestamp := map_option word_of_int (as_integer v)\<rparr>"
  "parse_entry nc ''pcrs'' v s = s\<lparr>p_pcrs := insert_pcrs nc v (p_pcrs s)\<rparr>"
  "parse_entry nc ''certificate'' v s = s\<lparr>p_cert := as_byte_string v\<rparr>"
  "parse_entry nc ''cabundle'' v s = s\<lparr>p_cabundle := push_cabundle v (p_cabundle s)\<rparr>"
  "parse_entry nc ''public_key'' v s = s\<lparr>p_public_key := as_byte_string v\<rparr>"
  "parse_entry nc ''user_data'' v s = s\<lparr>p_user_data := as_byte_string v\<rparr>"
  "parse_entry nc ''nonce'' v s = s\<lparr>p_nonce := as_byte_string v\<rparr>"
  by (simp_all add: parse_entry_def)

lemma insert_pcrs_entries:
  "insert_pcrs nc (CMap (map (\<lambda>(i, b). (CInteger (int i), CBytes b)) pcrs)) m =
   foldl (\<lambda>m (i, b). btree_insert (word_of_nat i) (nc_hex_encode nc b) m) m pcrs"
  by (induction pcrs arbitrary: m) (auto simp: insert_pcrs_def)

lemma parse_entries_document:
  "parse_entries nc (document_map module_id digest timestamp pcrs cert cabundle public_key user_data nonce) empty_parse =
   Inr \<lparr>p_module_id = Some module_id, p_digest = Some digest, p_timestamp = Some timestamp,
     p_pcrs = foldl (\<lambda>m (i, b). btree_insert (word_of_nat i) (nc_hex_encode nc b) m) [] pcrs,
     p_cert = Some cert, p_cabundle = cabundle, p_public_key = public_key, p_user_data = user_data,
     p_nonce = nonce\<rparr>"
  unfolding document_map_def
  by (simp add: parse_entry_simps empty_parse_def push_cabundle_def insert_pcrs_entries)

lemma lookup_pcrs:
  "map_of (foldl (\<lambda>m (i, b). btree_insert (word_of_nat i :: usize) (h b) m) m pcrs) =
   map_of m ++ map_of (rev (map (\<lambda>(i, b). (word_of_nat i, h b)) pcrs))"
  by (induction pcrs arbitrary: m) (auto simp: btree_insert_lookup map_add_def fun_eq_iff split: option.splits)

text \<open>Parsing reads what the NSM writes: for a document whose payload is the map of the nine fields,
  \<open>parse\<close> returns every field unchanged, the leaf certificate followed by the bundle as the chain, and
  each PCR in hexadecimal under its index.\<close>

lemma document_parsed:
  assumes "cose_from_slice nc doc = Inr cose" and "cose_payload cose = Some payload"
    and "cbor_decode nc payload =
      Inr (CMap (document_map module_id digest timestamp pcrs cert cabundle public_key user_data nonce))"
    and "distinct (map fst pcrs)" and "\<And>i b. (i, b) \<in> set pcrs \<Longrightarrow> i < 2 ^ 64" and "(k, b) \<in> set pcrs"
  shows "\<exists>att. parse nc doc = Inr att \<and> va_module_id att = module_id \<and> va_digest att = digest \<and>
    va_timestamp_ms att = timestamp \<and> va_certificate_chain att = cert # cabundle \<and>
    channel_public_key att = public_key \<and> va_user_data att = user_data \<and> va_nonce att = nonce \<and>
    map_of (va_pcrs att) (word_of_nat k) = Some (nc_hex_encode nc b)"
proof -
  let ?kvs = "map (\<lambda>(i, b). (word_of_nat i :: usize, nc_hex_encode nc b)) pcrs"
  have inj: "inj_on (word_of_nat :: nat \<Rightarrow> usize) (fst ` set pcrs)"
  proof (rule inj_onI)
    fix x y assume "x \<in> fst ` set pcrs" "y \<in> fst ` set pcrs" and eq: "(word_of_nat x :: usize) = word_of_nat y"
    then have "x < 2 ^ 64" "y < 2 ^ 64" using assms(5) by auto
    moreover from eq have "unat (word_of_nat x :: usize) = unat (word_of_nat y :: usize)" by simp
    ultimately show "x = y" by (simp add: unat_of_nat del: word_of_nat_eq_iff)
  qed
  have fst_kvs: "map fst ?kvs = map (word_of_nat :: nat \<Rightarrow> usize) (map fst pcrs)"
    by (simp add: comp_def case_prod_unfold)
  have "distinct (map fst ?kvs)"
    unfolding fst_kvs using assms(4) inj by (simp add: distinct_map comp_inj_on)
  then have "distinct (map fst (rev ?kvs))" unfolding rev_map [symmetric] distinct_rev .
  moreover have "(word_of_nat k, nc_hex_encode nc b) \<in> set ?kvs" using assms(6) by force
  ultimately have "map_of (rev ?kvs) (word_of_nat k) = Some (nc_hex_encode nc b)"
    by (intro map_of_is_SomeI) (simp_all only: set_rev)
  then show ?thesis using assms(1-3)
    by (simp add: parse_def parse_entries_document channel_public_key_def lookup_pcrs)
qed

lemma demo_nitro_simps [simp]:
  "cose_from_slice demo_nitro d = Inr \<lparr>cose_payload = Some [], cose_alg = ES384, cose_signature = [], cose_tbs = []\<rparr>"
  "cbor_decode demo_nitro d = Inr (CMap (document_map ''m'' ''SHA384'' 5000 [(0, [0x61])] [1] [[3], [2]] None None None))"
  "cert_from_der demo_nitro d = (if d = [1] then Inr (demo_cert ''L'' ''I'')
     else if d = [2] then Inr (demo_cert ''I'' ''R'') else Inr (demo_cert ''R'' ''R''))"
  "basic_constraints_from_der demo_nitro d = Inr (True, None)" "key_usage_cert_sign demo_nitro d = Inr True"
  "key_from_sec1 demo_nitro d = Inr d" "sig_from_der demo_nitro d = Inr d" "sig_from_slice demo_nitro d = Inr d"
  "p384_verify demo_nitro k m g" "nc_b64_decode demo_nitro t = Some []"
  "nc_hex_encode demo_nitro d = map (\<lambda>b. char_of (unat b)) d"
  by (simp_all add: demo_nitro_def)

lemma demo_parse: "parse demo_nitro [] = Inr demo_att"
  by (simp add: parse_def parse_entries_document demo_att_def char_of_def bit_iff_odd)

lemma demo_chain: "verify_chain demo_nitro (Some 50) [1] [[3], [2]] [] = Inr ()"
  unfolding verify_chain_def
  by (simp add: pem_decode_vec_def build_path.simps remove_at_def demo_cert_def Let_def
      verify_cert_validity_def assert_ca_constraints_def check_basic_constraints_def verify_cert_signature_def)

lemma demo_fresh: "assert_fresh demo_att 6000 10 = Inr ()"
  by (simp add: assert_fresh_def delta_secs_def demo_att_def)

lemma demo_measured: "assert_measurement_matches demo_att ''A'' = Inr ()"
  by (simp add: assert_measurement_matches_def demo_att_def eq_ignore_ascii_case_def to_ascii_lower_def Let_def
      char_of_def bit_iff_odd)

lemma demo_att_chain [simp]: "va_certificate_chain demo_att = [[1], [3], [2]]"
  by (simp add: demo_att_def)

lemma demo_accepted: "parse_and_verify demo_nitro (Some 50) [] [] 6000 10 (Some ''A'') = Inr demo_att"
  by (simp add: parse_and_verify_def demo_parse verify_signature_def demo_chain verify_cose_signature_def
      demo_fresh demo_measured)

theorem accepted_document_trusted_witness:
  "\<exists>cose leaf_der cabundle leaf pool label root_der root path now key sig.
    cose_from_slice demo_nitro [] = Inr cose \<and> parse demo_nitro [] = Inr demo_att \<and>
    va_certificate_chain demo_att = leaf_der # cabundle \<and>
    cert_from_der demo_nitro leaf_der = Inr leaf \<and>
    list_all2 (\<lambda>der c. cert_from_der demo_nitro der = Inr c) cabundle pool \<and>
    pem_decode_vec demo_nitro [] = Inr (label, root_der) \<and> cert_from_der demo_nitro root_der = Inr root \<and>
    mset path \<subseteq># mset pool \<and> Some 50 = Some now \<and>
    trusted_path demo_nitro now root 0 (leaf # path) \<and> valid_at now root \<and>
    cose_alg cose = ES384 \<and> key_from_sec1 demo_nitro (cert_spki leaf) = Inr key \<and>
    sig_from_slice demo_nitro (cose_signature cose) = Inr sig \<and> p384_verify demo_nitro key (cose_tbs cose) sig \<and>
    \<bar>delta_secs 6000 (va_timestamp_ms demo_att)\<bar> \<le> sint (10 :: i64) \<and>
    (Some ''A'' = None \<or> (\<exists>pcr0 got. Some ''A'' = Some pcr0 \<and> measurement_pcr0 demo_att = Some got \<and>
       eq_ignore_ascii_case got pcr0))"
  by (rule accepted_document_trusted [OF demo_accepted])

text \<open>The subjects must differ: with two certificates for the subject of the leaf's issuer, one issued by the
  root and one by an issuer that is not in the bundle, the first in the bundle is taken and never
  reconsidered, so one order is accepted and the other is not.\<close>

definition twin_nitro :: nitro_crates where
  "twin_nitro = demo_nitro\<lparr>cert_from_der := (\<lambda>d. if d = [1] then Inr (demo_cert ''L'' ''I'')
     else if d = [2] then Inr (demo_cert ''I'' ''R'') else if d = [3] then Inr (demo_cert ''I'' ''X'')
     else Inr (demo_cert ''R'' ''R''))\<rparr>"

lemma bundle_order_matters:
  "verify_chain twin_nitro (Some 50) [1] [[2], [3]] [] = Inr ()"
  "verify_chain twin_nitro (Some 50) [1] [[3], [2]] [] \<noteq> Inr ()"
  unfolding verify_chain_def twin_nitro_def
  by (simp_all add: pem_decode_vec_def build_path.simps remove_at_def demo_cert_def Let_def
      verify_cert_validity_def assert_ca_constraints_def check_basic_constraints_def verify_cert_signature_def)

theorem bundle_order_irrelevant_witness:
  "verify_chain demo_nitro (Some 50) [1] [[3], [2]] [] = Inr () \<longleftrightarrow>
   verify_chain demo_nitro (Some 50) [1] [[2], [3]] [] = Inr ()"
  by (rule bundle_order_irrelevant) (auto simp: list_all2_Cons1 demo_cert_def)

theorem freshness_window_witness:
  "assert_fresh demo_att 15999 10 = Inr () \<longleftrightarrow>
   \<bar>sint (15999 :: i64) - sint (va_timestamp_ms demo_att)\<bar> < (sint (10 :: i64) + 1) * 1000"
  by (rule freshness_window) (simp_all add: demo_att_def)

end
