(* ===== verification/Attested_Channel.thy ===== *)
theory Attested_Channel
  imports Enclave_Props Nitro_Props
begin

text \<open>
  The enclave and the client's verifier together: the keys the enclave publishes are the keys the client
  reads out of the attestation document.
\<close>

text \<open>C31. The attested keys reach the client: if the NSM writes the document it is asked for, as the COSE
  structure around the map of its fields, then what \<open>publish_attestation\<close> returns decodes to a document
  that \<open>parse\<close> accepts; the client reads from it the enclave's channel key, the PCR0 the NSM measured and, as
  user data, the canonical bytes of the binding, which names the channel key and the key that verifies the
  proofs, the same two that are shown beside the document.\<close>

theorem attested_keys_reach_client:
  assumes "publish_attestation ext io st = Some (Inr att)" and "object_map (map_insert ext)"
    and "\<And>b. b64_decode ext (b64_encode ext b) = Some b"
    and "\<And>user_data doc. io_nsm io 0 (AttestationRequest (Some user_data) None (Some (channel_pk st))) =
        AttestationDocument doc \<Longrightarrow>
      \<exists>cose payload. cose_from_slice nc doc = Inr cose \<and> cose_payload cose = Some payload \<and>
        cbor_decode nc payload = Inr (CMap (document_map module_id digest timestamp pcrs cert cabundle
          (Some (channel_pk st)) (Some user_data) None))"
    and "distinct (map fst pcrs)" and "\<And>i b. (i, b) \<in> set pcrs \<Longrightarrow> i < 2 ^ 64" and "(0, pcr0) \<in> set pcrs"
  shows "\<exists>doc va user_data. b64_decode ext (nitro_attestation_b64 att) = Some doc \<and> parse nc doc = Inr va \<and>
    channel_public_key va = Some (channel_pk st) \<and> measurement_pcr0 va = Some (nc_hex_encode nc pcr0) \<and>
    va_user_data va = Some user_data \<and> try_canonical_json ext (binding_value ext st) = Inr user_data \<and>
    json_get (binding_value ext st) ''channel_public_key_hex'' = Some (JString (ao_channel_public_key_hex att)) \<and>
    json_get (binding_value ext st) ''proof_verifier_key_hex'' = Some (JString (ao_proof_verifier_key_hex att)) \<and>
    ao_channel_public_key_hex att = hex_encode ext (channel_pk st)"
proof -
  obtain user_data doc where d: "try_canonical_json ext (binding_value ext st) = Inr user_data"
    "io_nsm io 0 (AttestationRequest (Some user_data) None (Some (channel_pk st))) = AttestationDocument doc"
    "nitro_attestation_b64 att = b64_encode ext doc"
    "ao_channel_public_key_hex att = hex_encode ext (channel_pk st)"
    "ao_proof_verifier_key_hex att = hex_encode ext (ed25519_public ext (proof_sk st))"
    using assms(1) by (rule publish_attestation_doc)
  obtain cose payload where c: "cose_from_slice nc doc = Inr cose" "cose_payload cose = Some payload"
    "cbor_decode nc payload = Inr (CMap (document_map module_id digest timestamp pcrs cert cabundle
       (Some (channel_pk st)) (Some user_data) None))" using assms(4) [OF d(2)] by blast
  have "i < 2 ^ 64" if "(i, b) \<in> set pcrs" for i b using assms(6) [OF that] .
  from document_parsed [OF c assms(5) this assms(7)] obtain va where va: "parse nc doc = Inr va"
    "channel_public_key va = Some (channel_pk st)" "va_user_data va = Some user_data"
    "map_of (va_pcrs va) 0 = Some (nc_hex_encode nc pcr0)" by fastforce
  then have "measurement_pcr0 va = Some (nc_hex_encode nc pcr0)" by (simp add: measurement_pcr0_def)
  with d va assms(3) [of doc] binding_names_keys [OF assms(2), of st] show ?thesis
    by (intro exI [of _ doc] exI [of _ va] exI [of _ user_data]) simp
qed

definition demo_client :: nitro_crates where
  "demo_client = demo_nitro\<lparr>cbor_decode := \<lambda>_. Inr (CMap (document_map ''m'' ''SHA384'' 5000 [(0, [0x61])] [1] [[3], [2]]
     (Some (channel_pk demo_state)) (Some [0x7B, 0x7D]) None))\<rparr>"

definition demo_requested :: request_io where
  "demo_requested = demo_io\<lparr>io_nsm := \<lambda>k req.
     if req = AttestationRequest (Some [0x7B, 0x7D]) None (Some (channel_pk demo_state))
     then AttestationDocument [9] else ErrorCode ''InvalidArgument''\<rparr>"

lemma demo_published: "\<exists>att :: attestation_out. publish_attestation demo_gateway demo_requested demo_state = Some (Inr att)"
  by (simp add: publish_attestation_def try_canonical_json_def generate_attestation_def demo_requested_def demo_io_def now_secs_def)

theorem attested_keys_reach_client_witness:
  "\<exists>att :: attestation_out. publish_attestation demo_gateway demo_requested demo_state = Some (Inr att) \<and>
   (\<exists>doc va user_data. b64_decode demo_gateway (nitro_attestation_b64 att) = Some doc \<and> parse demo_client doc = Inr va \<and>
    channel_public_key va = Some (channel_pk demo_state) \<and>
    measurement_pcr0 va = Some (nc_hex_encode demo_client [0x61]) \<and> va_user_data va = Some user_data \<and>
    try_canonical_json demo_gateway (binding_value demo_gateway demo_state) = Inr user_data \<and>
    json_get (binding_value demo_gateway demo_state) ''channel_public_key_hex'' =
      Some (JString (ao_channel_public_key_hex att)) \<and>
    json_get (binding_value demo_gateway demo_state) ''proof_verifier_key_hex'' =
      Some (JString (ao_proof_verifier_key_hex att)) \<and>
    ao_channel_public_key_hex att = hex_encode demo_gateway (channel_pk demo_state))"
proof -
  obtain att :: attestation_out where att: "publish_attestation demo_gateway demo_requested demo_state = Some (Inr att)"
    using demo_published ..
  have "\<exists>doc va user_data. b64_decode demo_gateway (nitro_attestation_b64 att) = Some doc \<and> parse demo_client doc = Inr va \<and>
    channel_public_key va = Some (channel_pk demo_state) \<and>
    measurement_pcr0 va = Some (nc_hex_encode demo_client [0x61]) \<and> va_user_data va = Some user_data \<and>
    try_canonical_json demo_gateway (binding_value demo_gateway demo_state) = Inr user_data \<and>
    json_get (binding_value demo_gateway demo_state) ''channel_public_key_hex'' =
      Some (JString (ao_channel_public_key_hex att)) \<and>
    json_get (binding_value demo_gateway demo_state) ''proof_verifier_key_hex'' =
      Some (JString (ao_proof_verifier_key_hex att)) \<and>
    ao_channel_public_key_hex att = hex_encode demo_gateway (channel_pk demo_state)"
    by (rule attested_keys_reach_client [OF att, where pcrs = "[(0, [0x61])]" and module_id = "''m''" and
        digest = "''SHA384''" and timestamp = 5000 and cert = "[1]" and cabundle = "[[3], [2]]"])
      (auto simp: demo_client_def demo_nitro_def demo_requested_def demo_gateway_def demo_ext_def as_bytes_copy
        split: if_splits)
  with att show ?thesis by blast
qed

end
