(* ===== verification/Aws_Roots.thy ===== *)
theory Aws_Roots
  imports Nitro_Props
begin

text \<open>
  The two root certificates \<open>crates/nitro-attestation/src/lib.rs\<close> embeds, one of which a client passes to
  \<open>verify\<close> as the pinned root, and what its PEM decoder makes of them: the text is UTF-8, the armour
  lines go and the rest reaches the base64 decoder as one padded group sequence of the standard alphabet.
\<close>

definition pem_text :: "string list \<Rightarrow> string" where
  "pem_text ls = concat (map (\<lambda>l. l @ [CHR 0x0A]) ls)"

definition AWS_ROOT_PEM_COMMERCIAL :: bytes where
  "AWS_ROOT_PEM_COMMERCIAL = as_bytes (pem_text
     [''-----BEGIN CERTIFICATE-----'',
      ''MIICETCCAZagAwIBAgIRAPkxdWgbkK/hHUbMtOTn+FYwCgYIKoZIzj0EAwMwSTEL'',
      ''MAkGA1UEBhMCVVMxDzANBgNVBAoMBkFtYXpvbjEMMAoGA1UECwwDQVdTMRswGQYD'',
      ''VQQDDBJhd3Mubml0cm8tZW5jbGF2ZXMwHhcNMTkxMDI4MTMyODA1WhcNNDkxMDI4'',
      ''MTQyODA1WjBJMQswCQYDVQQGEwJVUzEPMA0GA1UECgwGQW1hem9uMQwwCgYDVQQL'',
      ''DANBV1MxGzAZBgNVBAMMEmF3cy5uaXRyby1lbmNsYXZlczB2MBAGByqGSM49AgEG'',
      ''BSuBBAAiA2IABPwCVOumCMHzaHDimtqQvkY4MpJzbolL//Zy2YlES1BR5TSksfbb'',
      ''48C8WBoyt7F2Bw7eEtaaP+ohG2bnUs990d0JX28TcPQXCEPZ3BABIeTPYwEoCWZE'',
      ''h8l5YoQwTcU/9KNCMEAwDwYDVR0TAQH/BAUwAwEB/zAdBgNVHQ4EFgQUkCW1DdkF'',
      ''R+eWw5b6cp3PmanfS5YwDgYDVR0PAQH/BAQDAgGGMAoGCCqGSM49BAMDA2kAMGYC'',
      ''MQCjfy+Rocm9Xue4YnwWmNJVA44fA0P5W2OpYow9OYCVRaEevL8uO1XYru5xtMPW'',
      ''rfMCMQCi85sWBbJwKKXdS6BptQFuZbT73o/gBh1qUxl/nNr12UO8Yfwr6wPLb+6N'',
      ''IwLz3/Y='',
      ''-----END CERTIFICATE-----''])"

definition AWS_ROOT_PEM_GOVCLOUD :: bytes where
  "AWS_ROOT_PEM_GOVCLOUD = as_bytes (pem_text
     [''-----BEGIN CERTIFICATE-----'',
      ''MIIB6jCCAW+gAwIBAgIQCMjm6BMzlEhKlTbcGr+EczAKBggqhkjOPQQDAzBJMQsw'',
      ''CQYDVQQGEwJVUzEPMA0GA1UECgwGQW1hem9uMQwwCgYDVQQLDANBV1MxGzAZBgNV'',
      ''BAMMEmF3cy5uaXRyby1lbmNsYXZlczAeFw0yMDA2MTAxOTI4NDNaFw00MDA2MTAy'',
      ''MDI4NDNaMEkxCzAJBgNVBAYTAlVTMQ8wDQYDVQQKDAZBbWF6b24xDDAKBgNVBAsM'',
      ''A0FXUzEbMBkGA1UEAwwSYXdzLm5pdHJvLWVuY2xhdmVzMHYwEAYHKoZIzj0CAQYF'',
      ''K4EEACIDYgAEsT0sEbXVU2cnAS4TJfV8Y0nA8sqU3IsZNwm6sXX6oQA9C9Jt7Tg5'',
      ''8s/pNkD3FuVL9pVZpJpgFB7C/B1eFwgGzKkA3kxN6BB3yJtT8r+rN6yqDcgGZBuM'',
      ''9aKHQGgPyhq2o0IwQDAPBgNVHRMBAf8EBTADAQH/MA4GA1UdDwEB/wQEAwIBhjAd'',
      ''BgNVHQ4EFgQUVxIuJWfp/Y3JzcoUKJWFc4qOyfowCgYIKoZIzj0EAwMDaQAwZgIx'',
      ''AILi9Rg6cFcLU3WtIThZ+l+0H6lE7gV1MR9wKEEPpJ2zXBcU0fGdgZHzVGM2vqgX'',
      ''4QIxALL1OQc8s8w50yYBKvK7nHFvrjpDxrJ7c2/Vc9wRSZBeWqZTBznSjyG6Asne'',
      ''TZBhsg=='',
      ''-----END CERTIFICATE-----''])"

section \<open>Text made of lines\<close>

definition plain_line :: "string \<Rightarrow> bool" where
  "plain_line l \<longleftrightarrow> (\<forall>c \<in> set l. 0x20 \<le> (of_char c :: nat) \<and> (of_char c :: nat) < 0x80)"

lemma str_lines_pem_text: "list_all plain_line ls \<Longrightarrow> str_lines (pem_text ls) = ls"
proof (induction ls)
  case (Cons l ls)
  then have "CHR 0x0A \<notin> set l" "CHR 0x0D \<notin> set l" by (auto simp: plain_line_def)
  with Cons show ?case using str_lines_line [of l "pem_text ls"] by (simp add: pem_text_def)
qed (simp add: pem_text_def)

lemma utf8_valid_ascii: "\<forall>b \<in> set bs. b < 0x80 \<Longrightarrow> utf8_valid bs"
  by (induction bs) (simp_all add: utf8_width_def)

lemma utf8_valid_pem_text: "list_all plain_line ls \<Longrightarrow> utf8_valid (as_bytes (pem_text ls))"
  by (rule utf8_valid_ascii)
    (auto simp: pem_text_def as_bytes_def plain_line_def list_all_iff word_less_nat_alt unat_of_char_byte)

definition armoured :: "string list \<Rightarrow> string" where
  "armoured ls = concat (filter (\<lambda>l. \<not> prefix ''-----'' l) ls)"

lemma pem_decode_lines:
  assumes "list_all plain_line ls"
  shows "pem_decode_vec nc (as_bytes (pem_text ls)) =
     rbind (ok_or ''base64 decode'' (nc_b64_decode nc (armoured ls))) (\<lambda>der. Inr (''CERTIFICATE'', der))"
proof -
  have "map (\<lambda>b. char_of (unat b)) (as_bytes s) = s" for s
    by (simp add: as_bytes_def comp_def unat_of_char_byte)
  with utf8_valid_pem_text [OF assms] str_lines_pem_text [OF assms] show ?thesis
    by (simp add: pem_decode_vec_def Let_def armoured_def)
qed

section \<open>The two standards\<close>

text \<open>What the decoders are documented to follow. RFC 4648: four digits of the alphabet carry three bytes, the
  last group may end in one or two padding characters.\<close>

definition b64_digit :: "char \<Rightarrow> nat option" where
  "b64_digit c =
     (let n = of_char c :: nat in
      if 65 \<le> n \<and> n \<le> 90 then Some (n - 65)
      else if 97 \<le> n \<and> n \<le> 122 then Some (n - 71)
      else if 48 \<le> n \<and> n \<le> 57 then Some (n + 4)
      else if n = 43 then Some 62
      else if n = 47 then Some 63
      else None)"

fun rfc4648_decode :: "string \<Rightarrow> bytes option" where
  "rfc4648_decode [] = Some []"
| "rfc4648_decode (a # b # c # d # s) =
     (case (b64_digit a, b64_digit b) of
        (Some w, Some x) \<Rightarrow>
          if s = [] \<and> d = CHR 0x3D then
            (if c = CHR 0x3D then Some [word_of_nat (w * 4 + x div 16)]
             else case b64_digit c of
                 None \<Rightarrow> None
               | Some y \<Rightarrow> Some [word_of_nat (w * 4 + x div 16), word_of_nat (x * 16 + y div 4)])
          else
            (case (b64_digit c, b64_digit d) of
               (Some y, Some z) \<Rightarrow> map_option ((@) [word_of_nat (w * 4 + x div 16),
                 word_of_nat (x * 16 + y div 4), word_of_nat (y * 64 + z)]) (rfc4648_decode s)
             | _ \<Rightarrow> None)
      | _ \<Rightarrow> None)"
| "rfc4648_decode _ = None"

text \<open>DER (X.690): how long the value at the start of the input is, by the length in its header.\<close>

fun der_length :: "bytes \<Rightarrow> nat option" where
  "der_length (tag # l # r) =
     (if l < 0x80 then Some (2 + unat l)
      else let n = unat l - 0x80 in
        if n = 0 \<or> length r < n then None
        else Some (2 + n + foldl (\<lambda>a b. a * 256 + unat b) 0 (take n r)))"
| "der_length _ = None"

text \<open>How long the decoded bytes are and how they begin.\<close>

definition padding :: "string \<Rightarrow> nat" where
  "padding s = length (takeWhile (\<lambda>c. c = CHR 0x3D) (rev s))"

lemma b64_digit_pad [simp]: "b64_digit (CHR 0x3D) = None"
  by (simp add: b64_digit_def)

lemma padding_Cons [simp]: "c \<noteq> CHR 0x3D \<Longrightarrow> padding (c # s) = padding s"
  by (simp add: padding_def takeWhile_tail)

lemma padding_digit [simp]: "b64_digit c = Some n \<Longrightarrow> padding (c # s) = padding s"
  by (rule padding_Cons) auto

lemma padding_short [simp]:
  "padding [] = 0"
  "padding [CHR 0x3D] = 1"
  "padding [CHR 0x3D, CHR 0x3D] = 2"
  by (simp_all add: padding_def)

lemma rfc4648_inner:
  assumes "rfc4648_decode (c1 # c2 # c3 # c4 # s) = Some b" "s \<noteq> []"
  obtains w x y z r where "b64_digit c1 = Some w" "b64_digit c2 = Some x" "b64_digit c3 = Some y"
    "b64_digit c4 = Some z" "rfc4648_decode s = Some r"
    "b = [word_of_nat (w * 4 + x div 16), word_of_nat (x * 16 + y div 4), word_of_nat (y * 64 + z)] @ r"
  using assms by (auto split: option.splits)

lemma rfc4648_length: "rfc4648_decode s = Some b \<Longrightarrow> length b + padding s = 3 * (length s div 4)"
proof (induction s arbitrary: b rule: rfc4648_decode.induct)
  case (2 c1 c2 c3 c4 s)
  show ?case
  proof (cases "s = []")
    case True
    with "2.prems" show ?thesis by (auto split: option.splits if_splits)
  next
    case False
    obtain w x y z r where
      g: "b64_digit c1 = Some w" "b64_digit c2 = Some x" "b64_digit c3 = Some y" "b64_digit c4 = Some z"
        "rfc4648_decode s = Some r" and b: "length b = 3 + length r"
      by (rule rfc4648_inner [OF "2.prems" False]) auto
    have "length r + padding s = 3 * (length s div 4)"
      using "2.IH" False g by auto
    moreover have "padding (c1 # c2 # c3 # c4 # s) = padding s"
      using g by simp
    moreover have "length (c1 # c2 # c3 # c4 # s) div 4 = Suc (length s div 4)" by simp
    ultimately show ?thesis using b by (simp only:) simp
  qed
qed auto

text \<open>The header of a certificate: a sequence with a length of two bytes.\<close>

lemma b64_digit_less: "b64_digit c = Some n \<Longrightarrow> n < 64"
  by (auto simp: b64_digit_def Let_def split: if_splits)

lemma certificate_length:
  assumes "rfc4648_decode s = Some b" "take 6 s = ''MII'' @ [c4, c5, c6]" "12 \<le> length s"
    and "b64_digit c4 = Some n4" "b64_digit c5 = Some n5" "b64_digit c6 = Some n6"
  shows "der_length b = Some (4 + n4 * 256 + (n5 * 4 + n6 div 16))"
proof -
  define t where "t = drop 6 s"
  have s: "s = CHR ''M'' # CHR ''I'' # CHR ''I'' # c4 # c5 # c6 # t"
    using assms(2) append_take_drop_id [of 6 s] by (simp add: t_def)
  obtain c7 c8 u where t: "t = c7 # c8 # u" and u: "u \<noteq> []"
    using assms(3) unfolding s by (cases t; cases "tl t"; cases "tl (tl t)") auto
  have d: "b64_digit (CHR ''M'') = Some 12" "b64_digit (CHR ''I'') = Some 8"
    by (simp_all add: b64_digit_def)
  have zero: "(512 :: byte) = 0" by code_simp
  obtain r where r: "rfc4648_decode (c5 # c6 # t) = Some r" and b: "b = [0x30, 0x82, word_of_nat n4] @ r"
    by (rule rfc4648_inner [OF assms(1) [unfolded s]]) (use assms(4) d zero in auto)
  obtain r' where r': "r = word_of_nat (n5 * 4 + n6 div 16) # r'"
    by (rule rfc4648_inner [OF r [unfolded t] u]) (use assms(5,6) in auto)
  define m where "m = n5 * 4 + n6 div 16"
  have "n4 < 256" "m < 256"
    using assms(4-6) [THEN b64_digit_less] by (auto simp: m_def)
  then have "unat (word_of_nat n4 :: byte) = n4" "unat (word_of_nat m :: byte) = m"
    by (simp_all add: unat_of_nat)
  then show ?thesis
    unfolding b r' m_def [symmetric] by (simp add: Let_def take_Cons')
qed

section \<open>The embedded roots\<close>

lemma b64_alphabet:
  "list_all (\<lambda>(c, n). b64_digit c = Some n)
     (zip ''ABCDEFGHIJKLMNOPQRSTUVWXYZabcdefghijklmnopqrstuvwxyz0123456789+/''
       [0, 1, 2, 3, 4, 5, 6, 7, 8, 9, 10, 11, 12, 13, 14, 15, 16, 17, 18, 19, 20, 21, 22, 23, 24, 25, 26, 27, 28, 29, 30, 31, 32, 33, 34, 35, 36, 37, 38, 39, 40, 41, 42, 43, 44, 45, 46, 47, 48, 49, 50, 51, 52, 53, 54, 55, 56, 57, 58, 59, 60, 61, 62, 63])"
  by code_simp

lemmas b64_digits = b64_alphabet [simplified]

lemma commercial_text:
  "\<exists>ls. AWS_ROOT_PEM_COMMERCIAL = as_bytes (pem_text ls) \<and> list_all plain_line ls \<and>
     length (armoured ls) = 712 \<and> padding (armoured ls) = 1 \<and> take 6 (armoured ls) = ''MII'' @ ''CET''"
  by (intro exI conjI, rule AWS_ROOT_PEM_COMMERCIAL_def) code_simp+

lemma commercial_accepted:
  "\<exists>ls. AWS_ROOT_PEM_COMMERCIAL = as_bytes (pem_text ls) \<and> list_all plain_line ls \<and>
     rfc4648_decode (armoured ls) \<noteq> None"
  by (intro exI conjI, rule AWS_ROOT_PEM_COMMERCIAL_def, code_simp)
    (simp add: armoured_def b64_digits del: of_nat_add of_nat_mult)

lemma govcloud_text:
  "\<exists>ls. AWS_ROOT_PEM_GOVCLOUD = as_bytes (pem_text ls) \<and> list_all plain_line ls \<and>
     length (armoured ls) = 712 \<and> padding (armoured ls) = 2 \<and> take 6 (armoured ls) = ''MII'' @ ''B6j''"
  by (intro exI conjI, rule AWS_ROOT_PEM_GOVCLOUD_def) code_simp+

text \<open>From the embedded text to the bytes behind it.\<close>

lemma pem_root_bytes:
  assumes "pem = as_bytes (pem_text ls)" "list_all plain_line ls" "pem_decode_vec nc pem = Inr (label, d)"
    and "\<And>s b. nc_b64_decode nc s = Some b \<Longrightarrow> rfc4648_decode s = Some b"
    and "length (armoured ls) = 712" "take 6 (armoured ls) = ''MII'' @ [c4, c5, c6]"
    and "b64_digit c4 = Some n4" "b64_digit c5 = Some n5" "b64_digit c6 = Some n6"
  shows "length d + padding (armoured ls) = 534" "der_length d = Some (4 + n4 * 256 + (n5 * 4 + n6 div 16))"
proof -
  have "rfc4648_decode (armoured ls) = Some d"
    using assms(3,4) unfolding assms(1) pem_decode_lines [OF assms(2)] by (auto simp: result_iff)
  from rfc4648_length [OF this] certificate_length [OF this assms(6) _ assms(7-9)] assms(5)
  show "length d + padding (armoured ls) = 534" "der_length d = Some (4 + n4 * 256 + (n5 * 4 + n6 div 16))"
    by simp_all
qed

lemma commercial_bytes:
  assumes "\<And>s b. nc_b64_decode nc s = Some b \<Longrightarrow> rfc4648_decode s = Some b"
    and "pem_decode_vec nc AWS_ROOT_PEM_COMMERCIAL = Inr (label, d)"
  shows "length d = 533 \<and> der_length d = Some 533"
proof -
  from commercial_text obtain ls where ls: "AWS_ROOT_PEM_COMMERCIAL = as_bytes (pem_text ls)" "list_all plain_line ls"
    "length (armoured ls) = 712" "padding (armoured ls) = 1" "take 6 (armoured ls) = ''MII'' @ ''CET''" by blast
  from pem_root_bytes [OF ls(1,2) assms(2,1) ls(3,5), of 2 4 19] ls(4) show ?thesis
    by (simp add: b64_digits)
qed

lemma govcloud_bytes:
  assumes "\<And>s b. nc_b64_decode nc s = Some b \<Longrightarrow> rfc4648_decode s = Some b"
    and "pem_decode_vec nc AWS_ROOT_PEM_GOVCLOUD = Inr (label, d)"
  shows "length d = 532 \<and> der_length d = Some 494"
proof -
  from govcloud_text obtain ls where ls: "AWS_ROOT_PEM_GOVCLOUD = as_bytes (pem_text ls)" "list_all plain_line ls"
    "length (armoured ls) = 712" "padding (armoured ls) = 2" "take 6 (armoured ls) = ''MII'' @ ''B6j''" by blast
  from pem_root_bytes [OF ls(1,2) assms(2,1) ls(3,5), of 1 58 35] ls(4) show ?thesis
    by (simp add: b64_digits)
qed

text \<open>The chain check needs the root to decode.\<close>

lemma chain_decodes_root:
  "verify_chain nc clock leaf_der cabundle root_pem = Inr () \<Longrightarrow>
   \<exists>label d cert. pem_decode_vec nc root_pem = Inr (label, d) \<and> cert_from_der nc d = Inr cert"
  unfolding verify_chain_def by (auto simp: result_iff)

lemma accepted_decodes_root:
  assumes "parse_and_verify nc clock doc root_pem now_ms skew pcr0 = Inr att"
  shows "\<exists>label d cert. pem_decode_vec nc root_pem = Inr (label, d) \<and> cert_from_der nc d = Inr cert"
  using assms unfolding parse_and_verify_def verify_signature_def
  by (cases "va_certificate_chain att") (auto simp: result_iff dest!: chain_decodes_root)

text \<open>C30. The embedded roots: the commercial root is a certificate of 533 bytes whose DER header says so; the text of
  the GovCloud root carries 532 bytes behind a header that announces 494, so with a base64 decoder that
  follows RFC 4648 and a certificate decoder that rejects left-over bytes no attestation document is ever
  accepted under it.\<close>

theorem embedded_roots:
  assumes "\<And>s b. nc_b64_decode nc s = Some b \<Longrightarrow> rfc4648_decode s = Some b"
    and "\<And>d cert. cert_from_der nc d = Inr cert \<Longrightarrow> der_length d = Some (length d)"
  shows "(pem_decode_vec nc AWS_ROOT_PEM_COMMERCIAL = Inr (label, d) \<longrightarrow> length d = 533 \<and> der_length d = Some 533) \<and>
    (pem_decode_vec nc AWS_ROOT_PEM_GOVCLOUD = Inr (label', d') \<longrightarrow> length d' = 532 \<and> der_length d' = Some 494) \<and>
    parse_and_verify nc clock doc AWS_ROOT_PEM_GOVCLOUD now_ms skew pcr0 \<noteq> Inr att"
proof (intro conjI impI notI)
  assume "parse_and_verify nc clock doc AWS_ROOT_PEM_GOVCLOUD now_ms skew pcr0 = Inr att"
  then obtain label d cert where "pem_decode_vec nc AWS_ROOT_PEM_GOVCLOUD = Inr (label, d)"
    "cert_from_der nc d = Inr cert" using accepted_decodes_root by blast
  with govcloud_bytes [OF assms(1)] assms(2) show False by fastforce
qed (use commercial_bytes [OF assms(1)] govcloud_bytes [OF assms(1)] in blast)+

text \<open>Decoders that follow the standards.\<close>

definition strict_nitro :: nitro_crates where
  "strict_nitro = demo_nitro\<lparr>nc_b64_decode := rfc4648_decode,
     cert_from_der := \<lambda>d. if der_length d = Some (length d) then Inr (demo_cert ''R'' ''R'') else Inl ''length''\<rparr>"

lemma strict_simps:
  "nc_b64_decode strict_nitro s = rfc4648_decode s"
  "cert_from_der strict_nitro d = Inr cert \<Longrightarrow> der_length d = Some (length d)"
  by (auto simp: strict_nitro_def split: if_splits)

lemma strict_commercial: "\<exists>d. pem_decode_vec strict_nitro AWS_ROOT_PEM_COMMERCIAL = Inr (''CERTIFICATE'', d)"
proof -
  from commercial_accepted obtain ls d where ls: "AWS_ROOT_PEM_COMMERCIAL = as_bytes (pem_text ls)"
    "list_all plain_line ls" "rfc4648_decode (armoured ls) = Some d" by blast
  show ?thesis unfolding ls(1) pem_decode_lines [OF ls(2)] by (simp add: strict_simps ls(3) ok_or_def)
qed

theorem embedded_roots_witness:
  "\<exists>d. pem_decode_vec strict_nitro AWS_ROOT_PEM_COMMERCIAL = Inr (''CERTIFICATE'', d) \<and> length d = 533 \<and>
     der_length d = Some 533 \<and>
     parse_and_verify strict_nitro (Some 50) [] AWS_ROOT_PEM_GOVCLOUD 6000 10 (Some ''A'') \<noteq> Inr demo_att"
proof -
  obtain d where "pem_decode_vec strict_nitro AWS_ROOT_PEM_COMMERCIAL = Inr (''CERTIFICATE'', d)"
    using strict_commercial by blast
  with embedded_roots [of strict_nitro "''CERTIFICATE''" d _ _ "Some 50" "[]" 6000 10 "Some ''A''" demo_att] strict_simps
  show ?thesis by fastforce
qed

end
