(* ===== verification/Metering.thy ===== *)
theory Metering
  imports Canonical_Json Strings_Rust
begin

text \<open>
  The AWS Marketplace metering helpers of \<open>crates/marketplace-metering\<close>: validated usage events with an
  idempotency key, the \<open>BatchMeterUsage\<close> payload, the append-only event file and the command-line tool
  \<open>pzdr-metering-payload\<close>. SHA-256, hexadecimal and the JSON writer and parser are parameters; the file
  system maps a path to the bytes of the file.
\<close>

section \<open>Events\<close>

datatype metering_error =
    MissingField string
  | InvalidQuantity
  | TooManyRecords nat
  | Io string
  | Json string

record marketplace_usage_event =
  ev_product_code :: string
  ev_customer_aws_account_id :: string
  ev_dimension :: string
  ev_quantity :: u32
  ev_timestamp_unix_seconds :: i64
  ev_tenant_id :: string
  ev_request_id :: string
  ev_proof_id :: string
  ev_receipt_root_hex :: string
  ev_idempotency_key :: string

record marketplace_usage_input =
  in_product_code :: string
  in_customer_aws_account_id :: string
  in_dimension :: string
  in_quantity :: u32
  in_timestamp_unix_seconds :: i64
  in_tenant_id :: string
  in_request_id :: string
  in_proof_id :: string
  in_receipt_root_hex :: string

record metering_crates =
  mc_sha256 :: "bytes \<Rightarrow> bytes"
  mc_hex_encode :: "bytes \<Rightarrow> string"
  mc_to_string :: "json \<Rightarrow> string + string"
  mc_to_string_pretty :: "json \<Rightarrow> string + string"
  mc_event_from_str :: "string \<Rightarrow> string + marketplace_usage_event"

definition inference_dimension :: string where
  "inference_dimension = ''inference_request''"

definition require :: "string \<Rightarrow> string \<Rightarrow> metering_error + unit" where
  "require fld value = (if trim_is_empty value then Inl (MissingField fld) else Inr ())"

definition key_material :: "string list \<Rightarrow> bytes" where
  "key_material parts = concat (map (\<lambda>part. u64_to_be (word_of_nat (length part)) @ as_bytes part) parts)"

definition stable_idempotency_key :: "metering_crates \<Rightarrow> string list \<Rightarrow> string" where
  "stable_idempotency_key mc parts = mc_hex_encode mc (mc_sha256 mc (key_material parts))"

definition key_parts :: "marketplace_usage_input \<Rightarrow> string list" where
  "key_parts i = [in_product_code i, in_customer_aws_account_id i, in_dimension i, in_tenant_id i,
     in_request_id i, in_proof_id i, in_receipt_root_hex i]"

definition new_event :: "metering_crates \<Rightarrow> marketplace_usage_input \<Rightarrow> metering_error + marketplace_usage_event" where
  "new_event mc i =
     rbind (require ''product_code'' (in_product_code i)) (\<lambda>_.
     rbind (require ''customer_aws_account_id'' (in_customer_aws_account_id i)) (\<lambda>_.
     rbind (require ''dimension'' (in_dimension i)) (\<lambda>_.
     rbind (require ''tenant_id'' (in_tenant_id i)) (\<lambda>_.
     rbind (require ''request_id'' (in_request_id i)) (\<lambda>_.
     rbind (require ''proof_id'' (in_proof_id i)) (\<lambda>_.
     rbind (require ''receipt_root_hex'' (in_receipt_root_hex i)) (\<lambda>_.
     rbind (ensure (in_quantity i \<noteq> 0) InvalidQuantity) (\<lambda>_.
     let idempotency_key = stable_idempotency_key mc (key_parts i) in
     Inr \<lparr>ev_product_code = in_product_code i, ev_customer_aws_account_id = in_customer_aws_account_id i,
          ev_dimension = in_dimension i, ev_quantity = in_quantity i,
          ev_timestamp_unix_seconds = in_timestamp_unix_seconds i, ev_tenant_id = in_tenant_id i,
          ev_request_id = in_request_id i, ev_proof_id = in_proof_id i,
          ev_receipt_root_hex = in_receipt_root_hex i, ev_idempotency_key = idempotency_key\<rparr>))))))))"

definition inference_event ::
  "metering_crates \<Rightarrow> string \<Rightarrow> string \<Rightarrow> string \<Rightarrow> string \<Rightarrow> string \<Rightarrow> string \<Rightarrow> i64 \<Rightarrow>
   metering_error + marketplace_usage_event"
where
  "inference_event mc product_code customer_aws_account_id tenant_id request_id proof_id receipt_root_hex timestamp =
     new_event mc
       \<lparr>in_product_code = product_code, in_customer_aws_account_id = customer_aws_account_id,
        in_dimension = inference_dimension, in_quantity = 1, in_timestamp_unix_seconds = timestamp,
        in_tenant_id = tenant_id, in_request_id = request_id, in_proof_id = proof_id,
        in_receipt_root_hex = receipt_root_hex\<rparr>"

section \<open>The payload\<close>

record usage_allocation_tag =
  tag_key :: string
  tag_value :: string

record usage_allocation =
  allocated_usage_quantity :: u32
  allocation_tags :: "usage_allocation_tag list"

record usage_record =
  ur_customer_aws_account_id :: string
  ur_dimension :: string
  ur_quantity :: u32
  ur_timestamp :: i64
  usage_allocations :: "usage_allocation list"

record batch_meter_usage_payload =
  bp_product_code :: string
  usage_records :: "usage_record list"

definition to_usage_record :: "marketplace_usage_event \<Rightarrow> usage_record" where
  "to_usage_record event =
     \<lparr>ur_customer_aws_account_id = ev_customer_aws_account_id event,
      ur_dimension = ev_dimension event,
      ur_quantity = ev_quantity event,
      ur_timestamp = ev_timestamp_unix_seconds event,
      usage_allocations =
        [\<lparr>allocated_usage_quantity = ev_quantity event,
          allocation_tags =
            [\<lparr>tag_key = ''tenant_id'', tag_value = ev_tenant_id event\<rparr>,
             \<lparr>tag_key = ''proof_id'', tag_value = ev_proof_id event\<rparr>,
             \<lparr>tag_key = ''receipt_root_hex'', tag_value = ev_receipt_root_hex event\<rparr>]\<rparr>]\<rparr>"

definition batch_payload ::
  "string \<Rightarrow> marketplace_usage_event list \<Rightarrow> metering_error + batch_meter_usage_payload"
where
  "batch_payload product_code events =
     rbind (require ''product_code'' product_code) (\<lambda>_.
     rbind (ensure (\<not> 25 < length events) (TooManyRecords (length events))) (\<lambda>_.
     Inr \<lparr>bp_product_code = product_code, usage_records = map to_usage_record events\<rparr>))"

section \<open>JSON\<close>

text \<open>\<open>rename_all = "PascalCase"\<close>: each word of a field name starts with a capital, the rest stays, the
  underscores go.\<close>

definition to_ascii_upper :: "char \<Rightarrow> char" where
  "to_ascii_upper c = (let n = of_char c in if 97 \<le> n \<and> n \<le> (122 :: nat) then char_of (n - 32) else c)"

fun pascal_from :: "bool \<Rightarrow> string \<Rightarrow> string" where
  "pascal_from capital [] = []"
| "pascal_from capital (c # s) =
     (if c = CHR ''_'' then pascal_from True s
      else (if capital then to_ascii_upper c else c) # pascal_from False s)"

abbreviation pascal_case :: "string \<Rightarrow> string" where
  "pascal_case \<equiv> pascal_from True"

definition json_i64 :: "i64 \<Rightarrow> json" where
  "json_i64 n = JNumber (if 0 \<le> sint n then PosInt n else NegInt n)"

definition json_u32 :: "u32 \<Rightarrow> json" where
  "json_u32 n = json_u64 (ucast n)"

definition event_json :: "marketplace_usage_event \<Rightarrow> json" where
  "event_json e = JObject
     [(''product_code'', JString (ev_product_code e)),
      (''customer_aws_account_id'', JString (ev_customer_aws_account_id e)),
      (''dimension'', JString (ev_dimension e)),
      (''quantity'', json_u32 (ev_quantity e)),
      (''timestamp_unix_seconds'', json_i64 (ev_timestamp_unix_seconds e)),
      (''tenant_id'', JString (ev_tenant_id e)),
      (''request_id'', JString (ev_request_id e)),
      (''proof_id'', JString (ev_proof_id e)),
      (''receipt_root_hex'', JString (ev_receipt_root_hex e)),
      (''idempotency_key'', JString (ev_idempotency_key e))]"

definition tag_json :: "usage_allocation_tag \<Rightarrow> json" where
  "tag_json t = JObject
     [(pascal_case ''key'', JString (tag_key t)), (pascal_case ''value'', JString (tag_value t))]"

definition allocation_json :: "usage_allocation \<Rightarrow> json" where
  "allocation_json a = JObject
     [(pascal_case ''allocated_usage_quantity'', json_u32 (allocated_usage_quantity a)),
      (pascal_case ''tags'', JArray (map tag_json (allocation_tags a)))]"

definition record_json :: "usage_record \<Rightarrow> json" where
  "record_json r = JObject
     ([(pascal_case ''customer_aws_account_id'', JString (ur_customer_aws_account_id r)),
       (pascal_case ''dimension'', JString (ur_dimension r)),
       (pascal_case ''quantity'', json_u32 (ur_quantity r)),
       (pascal_case ''timestamp'', json_i64 (ur_timestamp r))] @
      (if usage_allocations r = [] then []
       else [(pascal_case ''usage_allocations'', JArray (map allocation_json (usage_allocations r)))]))"

definition payload_json :: "batch_meter_usage_payload \<Rightarrow> json" where
  "payload_json p = JObject
     [(pascal_case ''product_code'', JString (bp_product_code p)),
      (pascal_case ''usage_records'', JArray (map record_json (usage_records p)))]"

section \<open>The event file\<close>

type_synonym file_system = "string \<Rightarrow> string option"

text \<open>\<open>denied\<close> is the error the operating system gives when it does not open the file. The writer's
  output goes to the file before the line feed.\<close>

definition append_event_jsonl ::
  "metering_crates \<Rightarrow> string option \<Rightarrow> file_system \<Rightarrow> string \<Rightarrow> marketplace_usage_event \<Rightarrow>
   (metering_error + unit) \<times> file_system"
where
  "append_event_jsonl mc denied fs path event =
     (case denied of
        Some e \<Rightarrow> (Inl (Io e), fs)
      | None \<Rightarrow>
     (let contents = (case fs path of None \<Rightarrow> [] | Some c \<Rightarrow> c) in
      case mc_to_string mc (event_json event) of
        Inl e \<Rightarrow> (Inl (Json e), fs(path \<mapsto> contents))
      | Inr line \<Rightarrow> (Inr (), fs(path \<mapsto> (contents @ line) @ [CHR 0x0A]))))"

fun read_lines :: "metering_crates \<Rightarrow> string list \<Rightarrow> metering_error + marketplace_usage_event list" where
  "read_lines mc [] = Inr []"
| "read_lines mc (line # ls) =
     rbind (ensure (utf8_valid (as_bytes line)) (Io ''stream did not contain valid UTF-8'')) (\<lambda>_.
     if trim_is_empty line then read_lines mc ls
     else
       rbind (case mc_event_from_str mc line of Inl e \<Rightarrow> Inl (Json e) | Inr ev \<Rightarrow> Inr ev) (\<lambda>ev.
       rbind (read_lines mc ls) (\<lambda>evs. Inr (ev # evs))))"

definition read_events_jsonl ::
  "metering_crates \<Rightarrow> file_system \<Rightarrow> string \<Rightarrow> metering_error + marketplace_usage_event list"
where
  "read_events_jsonl mc fs path =
     (case fs path of
        None \<Rightarrow> Inl (Io ''No such file or directory (os error 2)'')
      | Some contents \<Rightarrow> read_lines mc (str_lines contents))"

section \<open>The command-line tool\<close>

datatype tool_error = Usage string | Metering metering_error | Output string

definition usage_error :: tool_error where
  "usage_error = Usage ''usage: pzdr-metering-payload <product-code> <events.jsonl> [--pretty]''"

text \<open>\<open>args\<close> are the arguments after the program's name; the result is the line printed.\<close>

definition run :: "metering_crates \<Rightarrow> file_system \<Rightarrow> string list \<Rightarrow> tool_error + string" where
  "run mc fs args =
     (case args of
        [] \<Rightarrow> Inl usage_error
      | [product_code] \<Rightarrow> Inl usage_error
      | product_code # events_path # rest \<Rightarrow>
     (let pretty = list_ex (\<lambda>arg. arg = ''--pretty'') rest in
      case read_events_jsonl mc fs events_path of
        Inl e \<Rightarrow> Inl (Metering e)
      | Inr events \<Rightarrow>
     (case batch_payload product_code events of
        Inl e \<Rightarrow> Inl (Metering e)
      | Inr payload \<Rightarrow>
     (case (if pretty then mc_to_string_pretty mc (payload_json payload) else mc_to_string mc (payload_json payload)) of
        Inl e \<Rightarrow> Inl (Output e)
      | Inr s \<Rightarrow> Inr (s @ [CHR 0x0A])))))"

text \<open>The \<open>Display\<close> texts of the errors.\<close>

definition metering_error_text :: "metering_error \<Rightarrow> string" where
  "metering_error_text e =
     (case e of
        MissingField fld \<Rightarrow> ''missing required field: '' @ fld
      | InvalidQuantity \<Rightarrow> ''quantity must be greater than zero''
      | TooManyRecords n \<Rightarrow> ''too many records for BatchMeterUsage: '' @ show_nat n @ ''; maximum is 25''
      | Io e \<Rightarrow> ''io: '' @ e
      | Json e \<Rightarrow> ''json: '' @ e)"

definition tool_error_text :: "tool_error \<Rightarrow> string" where
  "tool_error_text e = (case e of Usage s \<Rightarrow> s | Metering e \<Rightarrow> metering_error_text e | Output s \<Rightarrow> s)"

text \<open>Exit code, standard output and standard error of the program.\<close>

definition tool_main :: "metering_crates \<Rightarrow> file_system \<Rightarrow> string list \<Rightarrow> nat \<times> string \<times> string" where
  "tool_main mc fs args =
     (case run mc fs args of
        Inr out \<Rightarrow> (0, out, [])
      | Inl err \<Rightarrow> (1, [], ''error: '' @ tool_error_text err @ [CHR 0x0A]))"

end
