(* ===== verification/Metering_Props.thy ===== *)
theory Metering_Props
  imports Metering
begin

text \<open>
  The properties of the metering helpers: exact validation, the binding of the idempotency key, the
  payload read back field by field, the round trip through the event file and the tool run from end
  to end.
\<close>

lemma require_iff [result_iff]:
  "require fld v = Inr u \<longleftrightarrow> \<not> trim_is_empty v"
  "require fld v = Inl e \<longleftrightarrow> trim_is_empty v \<and> e = MissingField fld"
  by (auto simp: require_def)

text \<open>The seven fields of an event its key is taken over.\<close>

definition event_scope :: "marketplace_usage_event \<Rightarrow> string list" where
  "event_scope e = [ev_product_code e, ev_customer_aws_account_id e, ev_dimension e, ev_tenant_id e,
     ev_request_id e, ev_proof_id e, ev_receipt_root_hex e]"

section \<open>Validation\<close>

text \<open>Validation is exact: an event is built exactly when none of the seven text fields is empty or
  white space and the quantity is not zero, and then it carries every field of the input unchanged and
  the key of the seven fields.\<close>

lemma new_event_exact:
  "new_event mc i = Inr ev \<longleftrightarrow>
     \<not> list_ex trim_is_empty (key_parts i) \<and> in_quantity i \<noteq> 0 \<and>
     ev_product_code ev = in_product_code i \<and> ev_customer_aws_account_id ev = in_customer_aws_account_id i \<and>
     ev_dimension ev = in_dimension i \<and> ev_quantity ev = in_quantity i \<and>
     ev_timestamp_unix_seconds ev = in_timestamp_unix_seconds i \<and> ev_tenant_id ev = in_tenant_id i \<and>
     ev_request_id ev = in_request_id i \<and> ev_proof_id ev = in_proof_id i \<and>
     ev_receipt_root_hex ev = in_receipt_root_hex i \<and>
     ev_idempotency_key ev = stable_idempotency_key mc (key_parts i)"
  by (cases ev) (auto simp: new_event_def result_iff key_parts_def Let_def)

section \<open>The idempotency key\<close>

lemma key_material_Cons:
  "key_material (p # ps) = u64_to_be (word_of_nat (length p)) @ as_bytes p @ key_material ps"
  by (simp add: key_material_def)

lemma key_material_inject:
  "length ps = length qs \<Longrightarrow> list_all (\<lambda>p. length p < 2 ^ 64) ps \<Longrightarrow> list_all (\<lambda>p. length p < 2 ^ 64) qs \<Longrightarrow>
   key_material ps = key_material qs \<Longrightarrow> ps = qs"
proof (induction ps qs rule: list_induct2)
  case (Cons p ps q qs)
  then have w: "u64_to_be (word_of_nat (length p)) = u64_to_be (word_of_nat (length q))"
    and rest: "as_bytes p @ key_material ps = as_bytes q @ key_material qs"
    by (simp_all add: key_material_Cons)
  from w have "(word_of_nat (length p) :: u64) = word_of_nat (length q)" by (simp only: u64_to_be_inject)
  then have "unat (word_of_nat (length p) :: u64) = unat (word_of_nat (length q) :: u64)" by simp
  with Cons.prems have "length p = length q" by (simp add: unat_of_nat del: word_of_nat_eq_iff)
  with rest have "p = q \<and> key_material ps = key_material qs" by simp
  with Cons show ?case by simp
qed simp

lemma new_event_scope:
  assumes "new_event mc i = Inr e"
  shows "ev_idempotency_key e = stable_idempotency_key mc (event_scope e)" and "event_scope e = key_parts i"
    and "list_all (\<lambda>p. \<not> trim_is_empty p) (event_scope e)" and "ev_quantity e \<noteq> 0"
  using assms by (auto simp: new_event_exact event_scope_def key_parts_def)

text \<open>C32. Validated events are billed once: two events that pass validation carry the same idempotency key
  exactly when they agree on product, customer, dimension, tenant, request, proof and receipt root, none of
  which is blank, because the length prefixes keep the boundaries of the fields apart; this needs an
  injective hexadecimal encoding and no SHA-256 collision on the two strings. Quantity and time are not
  part of the key.\<close>

theorem idempotency_key_binds:
  assumes "new_event mc i = Inr e" and "new_event mc j = Inr f"
    and "\<And>a b. mc_hex_encode mc a = mc_hex_encode mc b \<Longrightarrow> a = b"
    and "mc_sha256 mc (key_material (event_scope e)) = mc_sha256 mc (key_material (event_scope f)) \<Longrightarrow>
      key_material (event_scope e) = key_material (event_scope f)"
    and "list_all (\<lambda>p. length p < 2 ^ 64) (event_scope e)" and "list_all (\<lambda>p. length p < 2 ^ 64) (event_scope f)"
  shows "(ev_idempotency_key e = ev_idempotency_key f \<longleftrightarrow> event_scope e = event_scope f) \<and>
    list_all (\<lambda>p. \<not> trim_is_empty p) (event_scope e)"
proof -
  have "length (event_scope e) = length (event_scope f)" by (simp add: event_scope_def)
  then have "key_material (event_scope e) = key_material (event_scope f) \<longleftrightarrow> event_scope e = event_scope f"
    by (intro iffI) (rule key_material_inject, simp_all only: assms(5,6))
  then have "ev_idempotency_key e = ev_idempotency_key f \<longleftrightarrow> event_scope e = event_scope f"
    unfolding new_event_scope(1) [OF assms(1)] new_event_scope(1) [OF assms(2)] stable_idempotency_key_def
    by (intro iffI) (drule assms(3), drule assms(4), simp, simp)
  with new_event_scope(3) [OF assms(1)] show ?thesis by simp
qed

definition demo_input :: "string \<Rightarrow> marketplace_usage_input" where
  "demo_input request = \<lparr>in_product_code = ''prod-123'', in_customer_aws_account_id = ''111122223333'',
     in_dimension = inference_dimension, in_quantity = 1, in_timestamp_unix_seconds = 1779984000,
     in_tenant_id = ''tenant-a'', in_request_id = request, in_proof_id = ''proof-abc'',
     in_receipt_root_hex = ''aa55''\<rparr>"

definition demo_event :: marketplace_usage_event where
  "demo_event = \<lparr>ev_product_code = ''prod-123'', ev_customer_aws_account_id = ''111122223333'',
     ev_dimension = inference_dimension, ev_quantity = 1, ev_timestamp_unix_seconds = 1779984000,
     ev_tenant_id = ''tenant-a'', ev_request_id = ''req-1'', ev_proof_id = ''proof-abc'',
     ev_receipt_root_hex = ''aa55'', ev_idempotency_key = ''k''\<rparr>"

definition demo_metering :: metering_crates where
  "demo_metering = \<lparr>mc_sha256 = (\<lambda>b. b), mc_hex_encode = copy_text, mc_to_string = (\<lambda>_. Inr ''{}''),
     mc_to_string_pretty = (\<lambda>_. Inr ''{}''), mc_event_from_str = (\<lambda>_. Inr demo_event)\<rparr>"

lemma demo_writer: "mc_to_string demo_metering j = Inr ''{}''"
  by (simp add: demo_metering_def)

lemma visible_text: "0x21 \<le> (of_char c :: nat) \<Longrightarrow> of_char c < (0x80 :: nat) \<Longrightarrow> \<not> trim_is_empty (c # s)"
  by (rule trim_is_empty_visible) (simp_all add: white_width_ascii)

definition demo_built :: "string \<Rightarrow> marketplace_usage_event" where
  "demo_built request = \<lparr>ev_product_code = ''prod-123'', ev_customer_aws_account_id = ''111122223333'',
     ev_dimension = inference_dimension, ev_quantity = 1, ev_timestamp_unix_seconds = 1779984000,
     ev_tenant_id = ''tenant-a'', ev_request_id = request, ev_proof_id = ''proof-abc'',
     ev_receipt_root_hex = ''aa55'',
     ev_idempotency_key = stable_idempotency_key demo_metering (key_parts (demo_input request))\<rparr>"

lemma demo_event_built:
  "\<not> trim_is_empty request \<Longrightarrow> new_event demo_metering (demo_input request) = Inr (demo_built request)"
  by (simp add: new_event_exact demo_built_def demo_input_def key_parts_def inference_dimension_def visible_text)

theorem idempotency_key_binds_witness:
  "(ev_idempotency_key (demo_built ''r1'') = ev_idempotency_key (demo_built ''r2'') \<longleftrightarrow>
    event_scope (demo_built ''r1'') = event_scope (demo_built ''r2'')) \<and>
   list_all (\<lambda>p. \<not> trim_is_empty p) (event_scope (demo_built ''r1''))"
  by (rule idempotency_key_binds [where i = "demo_input ''r1''" and j = "demo_input ''r2''" and mc = demo_metering])
    (simp_all add: demo_event_built visible_text,
     simp_all add: demo_metering_def demo_built_def event_scope_def inference_dimension_def)

section \<open>The payload\<close>

text \<open>What a reader of the payload sees. It looks the members up by the names of the \<open>BatchMeterUsage\<close>
  request, as literals (only the account's is the one the writer uses, see below), so a wrong or missing
  name of the writer is a member it does not find; absent \<open>UsageAllocations\<close> are the empty list.\<close>

fun member :: "json \<Rightarrow> string \<Rightarrow> json option" where
  "member (JObject kvs) k = map_of kvs k"
| "member _ k = None"

definition read_text :: "json option \<Rightarrow> string option" where
  "read_text v = (case v of Some (JString s) \<Rightarrow> Some s | _ \<Rightarrow> None)"

definition read_u32 :: "json option \<Rightarrow> u32 option" where
  "read_u32 v = (case v of Some (JNumber (PosInt n)) \<Rightarrow> if unat n < 2 ^ 32 then Some (ucast n) else None | _ \<Rightarrow> None)"

definition read_i64 :: "json option \<Rightarrow> i64 option" where
  "read_i64 v =
     (case v of
        Some (JNumber (PosInt n)) \<Rightarrow> if unat n < 2 ^ 63 then Some n else None
      | Some (JNumber (NegInt n)) \<Rightarrow> if sint n < 0 then Some n else None
      | _ \<Rightarrow> None)"

definition read_list :: "(json \<Rightarrow> 'a option) \<Rightarrow> json option \<Rightarrow> 'a list option" where
  "read_list f v = (case v of Some (JArray vs) \<Rightarrow> those (List.map f vs) | _ \<Rightarrow> None)"

definition read_tag :: "json \<Rightarrow> usage_allocation_tag option" where
  "read_tag v =
     Option.bind (read_text (member v ''Key'')) (\<lambda>k.
     Option.bind (read_text (member v ''Value'')) (\<lambda>w.
     Some \<lparr>tag_key = k, tag_value = w\<rparr>))"

definition read_allocation :: "json \<Rightarrow> usage_allocation option" where
  "read_allocation v =
     Option.bind (read_u32 (member v ''AllocatedUsageQuantity'')) (\<lambda>n.
     Option.bind (read_list read_tag (member v ''Tags'')) (\<lambda>ts.
     Some \<lparr>allocated_usage_quantity = n, allocation_tags = ts\<rparr>))"

definition read_record :: "json \<Rightarrow> usage_record option" where
  "read_record v =
     Option.bind (read_text (member v ''CustomerAwsAccountId'')) (\<lambda>c.
     Option.bind (read_text (member v ''Dimension'')) (\<lambda>d.
     Option.bind (read_u32 (member v ''Quantity'')) (\<lambda>n.
     Option.bind (read_i64 (member v ''Timestamp'')) (\<lambda>t.
     Option.bind (if member v ''UsageAllocations'' = None then Some []
       else read_list read_allocation (member v ''UsageAllocations'')) (\<lambda>al.
     Some \<lparr>ur_customer_aws_account_id = c, ur_dimension = d, ur_quantity = n, ur_timestamp = t,
       usage_allocations = al\<rparr>)))))"

definition read_payload :: "json \<Rightarrow> batch_meter_usage_payload option" where
  "read_payload v =
     Option.bind (read_text (member v ''ProductCode'')) (\<lambda>pc.
     Option.bind (read_list read_record (member v ''UsageRecords'')) (\<lambda>rs.
     Some \<lparr>bp_product_code = pc, usage_records = rs\<rparr>))"

lemma those_read: "(\<And>x. f (g x) = Some x) \<Longrightarrow> those (List.map (f \<circ> g) xs) = Some xs"
  by (induction xs) simp_all

lemma read_back [simp]:
  "read_text (Some (JString s)) = Some s" "read_u32 (Some (json_u32 n)) = Some n"
  "read_i64 (Some (json_i64 t)) = Some t"
proof -
  have bound: "unat n < 2 ^ 32" using unsigned_less [of n] by simp
  have same: "unat (ucast n :: u64) = unat n"
    using bound by (simp add: unsigned_ucast_eq unsigned_take_bit_eq take_bit_nat_eq_self)
  have "(ucast (ucast n :: u64) :: u32) = n" by (rule word_unat_eq_iff [THEN iffD2]) (use bound same in \<open>simp add: unsigned_ucast_eq unsigned_take_bit_eq take_bit_nat_eq_self\<close>)
  with bound same show "read_u32 (Some (json_u32 n)) = Some n"
    by (simp add: read_u32_def json_u32_def json_u64_def)
  have "unat t < 2 ^ 63" if "0 \<le> sint t"
  proof -
    have "uint t = take_bit 64 (sint t)" using uint_word_of_int_eq [of "sint t", where 'a = 64] by simp
    also have "\<dots> = sint t" using that sint_lt [of t] by (simp add: take_bit_int_eq_self)
    finally show ?thesis using sint_lt [of t] by (simp add: unat_eq_nat_uint nat_less_iff)
  qed
  then show "read_i64 (Some (json_i64 t)) = Some t"
    by (auto simp: read_i64_def json_i64_def)
qed (simp add: read_text_def)

lemma pascal_names:
  "pascal_case ''customer_aws_account_id'' = ''CustomerAwsAccountId''" "pascal_case ''dimension'' = ''Dimension''"
  "pascal_case ''quantity'' = ''Quantity''" "pascal_case ''timestamp'' = ''Timestamp''"
  "pascal_case ''usage_allocations'' = ''UsageAllocations''" "pascal_case ''product_code'' = ''ProductCode''"
  "pascal_case ''usage_records'' = ''UsageRecords''" "pascal_case ''key'' = ''Key''" "pascal_case ''value'' = ''Value''"
  "pascal_case ''allocated_usage_quantity'' = ''AllocatedUsageQuantity''" "pascal_case ''tags'' = ''Tags''"
  by (simp_all add: to_ascii_upper_def Let_def char_of_def bit_iff_odd)

lemma read_tag_json: "read_tag (tag_json t) = Some t"
  by (simp add: read_tag_def tag_json_def pascal_names del: pascal_from.simps)

lemma read_allocation_json: "read_allocation (allocation_json a) = Some a"
  by (simp add: read_allocation_def allocation_json_def pascal_names read_list_def those_read read_tag_json del: pascal_from.simps)

lemma read_record_json: "read_record (record_json r) = Some r"
  by (simp add: read_record_def record_json_def pascal_names read_list_def those_read read_allocation_json del: pascal_from.simps)

lemma read_payload_json: "read_payload (payload_json p) = Some p"
  by (simp add: read_payload_def payload_json_def pascal_names read_list_def those_read read_record_json del: pascal_from.simps)

lemma service_name_absent: "member (record_json r) ''CustomerAWSAccountId'' = None"
  by (simp add: record_json_def pascal_names del: pascal_from.simps)

text \<open>C34. The written payload says what was metered: reading the JSON by the names of the
  \<open>BatchMeterUsage\<close> request gives back the product code and, for every event in order, its account,
  dimension, quantity and time and one allocation of the whole quantity tagged with tenant, proof and
  receipt root; a batch has at most 25 records and a product code that is not blank. The one name that
  differs is the account's: it is written under \<open>CustomerAwsAccountId\<close>, and no record has the member
  \<open>CustomerAWSAccountId\<close> of the service.\<close>

theorem payload_reads_back:
  assumes "batch_payload product_code events = Inr payload"
  shows "read_payload (payload_json payload) = Some
      \<lparr>bp_product_code = product_code,
       usage_records = List.map (\<lambda>e.
         \<lparr>ur_customer_aws_account_id = ev_customer_aws_account_id e, ur_dimension = ev_dimension e,
          ur_quantity = ev_quantity e, ur_timestamp = ev_timestamp_unix_seconds e,
          usage_allocations =
            [\<lparr>allocated_usage_quantity = ev_quantity e,
              allocation_tags =
                [\<lparr>tag_key = ''tenant_id'', tag_value = ev_tenant_id e\<rparr>,
                 \<lparr>tag_key = ''proof_id'', tag_value = ev_proof_id e\<rparr>,
                 \<lparr>tag_key = ''receipt_root_hex'', tag_value = ev_receipt_root_hex e\<rparr>]\<rparr>]\<rparr>) events\<rparr> \<and>
    (\<exists>rs. member (payload_json payload) ''UsageRecords'' = Some (JArray rs) \<and>
       list_all (\<lambda>r. member r ''CustomerAWSAccountId'' = None) rs) \<and>
    length events \<le> 25 \<and> \<not> trim_is_empty product_code"
proof -
  have payload: "payload = \<lparr>bp_product_code = product_code, usage_records = List.map to_usage_record events\<rparr>"
    and limits: "length events \<le> 25" "\<not> trim_is_empty product_code"
    using assms by (auto simp: batch_payload_def result_iff)
  have "member (payload_json payload) ''UsageRecords'' = Some (JArray (List.map record_json (usage_records payload)))"
    by (simp add: payload_json_def pascal_names del: pascal_from.simps)
  moreover have "list_all (\<lambda>r. member r ''CustomerAWSAccountId'' = None) (List.map record_json (usage_records payload))"
    by (simp add: list_all_iff service_name_absent)
  ultimately show ?thesis
    using limits unfolding read_payload_json by (simp add: payload to_usage_record_def)
qed

theorem payload_reads_back_witness:
  "read_payload (payload_json \<lparr>bp_product_code = ''prod-123'', usage_records = [to_usage_record demo_event]\<rparr>) = Some
      \<lparr>bp_product_code = ''prod-123'',
       usage_records = List.map (\<lambda>e.
         \<lparr>ur_customer_aws_account_id = ev_customer_aws_account_id e, ur_dimension = ev_dimension e,
          ur_quantity = ev_quantity e, ur_timestamp = ev_timestamp_unix_seconds e,
          usage_allocations =
            [\<lparr>allocated_usage_quantity = ev_quantity e,
              allocation_tags =
                [\<lparr>tag_key = ''tenant_id'', tag_value = ev_tenant_id e\<rparr>,
                 \<lparr>tag_key = ''proof_id'', tag_value = ev_proof_id e\<rparr>,
                 \<lparr>tag_key = ''receipt_root_hex'', tag_value = ev_receipt_root_hex e\<rparr>]\<rparr>]\<rparr>) [demo_event]\<rparr> \<and>
    (\<exists>rs. member (payload_json \<lparr>bp_product_code = ''prod-123'', usage_records = [to_usage_record demo_event]\<rparr>)
         ''UsageRecords'' = Some (JArray rs) \<and>
       list_all (\<lambda>r. member r ''CustomerAWSAccountId'' = None) rs) \<and>
    length [demo_event] \<le> 25 \<and> \<not> trim_is_empty ''prod-123''"
  by (rule payload_reads_back) (simp add: batch_payload_def require_def visible_text)

section \<open>The event file\<close>

definition append_all :: "metering_crates \<Rightarrow> file_system \<Rightarrow> string \<Rightarrow> marketplace_usage_event list \<Rightarrow> file_system" where
  "append_all mc fs path evs = foldl (\<lambda>fs e. snd (append_event_jsonl mc None fs path e)) fs evs"

lemma read_lines_append:
  "read_lines mc (xs @ ys) = rbind (read_lines mc xs) (\<lambda>a. rbind (read_lines mc ys) (\<lambda>b. Inr (a @ b)))"
proof (induction xs)
  case Nil
  show ?case by (cases "read_lines mc ys") simp_all
next
  case (Cons l ls)
  then show ?case
    by (cases "utf8_valid (as_bytes l)"; cases "mc_event_from_str mc l"; cases "read_lines mc ls";
        cases "read_lines mc ys") simp_all
qed

lemma split_inclusive_Nil_iff: "split_inclusive s = [] \<longleftrightarrow> s = []"
  by (cases s) (auto split: list.split)

lemma split_inclusive_append:
  "c = [] \<or> last c = CHR 0x0A \<Longrightarrow> split_inclusive (c @ s) = split_inclusive c @ split_inclusive s"
proof (induction c)
  case (Cons x c)
  then have IH: "split_inclusive (c @ s) = split_inclusive c @ split_inclusive s"
    by (cases c) (auto split: if_splits)
  show ?case
  proof (cases "x = CHR 0x0A")
    case False
    with Cons.prems have "c \<noteq> []" by auto
    then obtain l ls where "split_inclusive c = l # ls"
      using split_inclusive_Nil_iff [of c] by (cases "split_inclusive c") auto
    with False IH show ?thesis by simp
  qed (use IH in simp)
qed simp

text \<open>A line the writer produced: the parser reads the event back, and the line is UTF-8, not blank and
  without a line break, as JSON in one line is.\<close>

definition good_line :: "metering_crates \<Rightarrow> marketplace_usage_event \<Rightarrow> string \<Rightarrow> bool" where
  "good_line mc e l \<longleftrightarrow> mc_to_string mc (event_json e) = Inr l \<and> mc_event_from_str mc l = Inr e \<and>
     utf8_valid (as_bytes l) \<and> \<not> trim_is_empty l \<and> CHR 0x0A \<notin> set l \<and> CHR 0x0D \<notin> set l"

lemma read_appended_line:
  "good_line mc e l \<Longrightarrow> c = [] \<or> last c = CHR 0x0A \<Longrightarrow> read_lines mc (str_lines c) = Inr evs \<Longrightarrow>
   read_lines mc (str_lines (c @ l @ [CHR 0x0A])) = Inr (evs @ [e])"
  using str_lines_line [of l "[]"] split_inclusive_append [of c "l @ [CHR 0x0A]"]
  by (simp add: good_line_def read_lines_append str_lines_def)

text \<open>The event file round-trips: after appending events to a file whose last line is complete, reading
  it returns the events that were in it followed by the appended ones, in order, as long as the JSON
  parser reads back what the writer wrote in one line.\<close>

lemma jsonl_round_trip:
  assumes "fs path = Some c" and "c = [] \<or> last c = CHR 0x0A" and "read_events_jsonl mc fs path = Inr old"
    and "\<And>e. e \<in> set evs \<Longrightarrow> \<exists>l. good_line mc e l"
  shows "read_events_jsonl mc (append_all mc fs path evs) path = Inr (old @ evs)"
proof -
  have "\<exists>c'. append_all mc fs path evs path = Some c' \<and> (c' = [] \<or> last c' = CHR 0x0A) \<and>
      read_lines mc (str_lines c') = Inr (old @ evs)"
    using assms(4)
  proof (induction evs rule: rev_induct)
    case Nil
    then show ?case using assms(1-3) by (simp add: append_all_def read_events_jsonl_def)
  next
    case (snoc e evs)
    then obtain c' where c': "append_all mc fs path evs path = Some c'" "c' = [] \<or> last c' = CHR 0x0A"
      "read_lines mc (str_lines c') = Inr (old @ evs)" by auto
    obtain l where l: "good_line mc e l" using snoc.prems by auto
    then have "append_all mc fs path (evs @ [e]) path = Some (c' @ l @ [CHR 0x0A])"
      using c'(1) by (simp add: append_all_def append_event_jsonl_def good_line_def)
    with read_appended_line [OF l c'(2,3)] show ?case by simp
  qed
  then show ?thesis by (auto simp: read_events_jsonl_def)
qed

lemma demo_good_line: "good_line demo_metering demo_event ''{}''"
proof -
  have "\<not> trim_is_empty ''{}''" by (rule trim_is_empty_visible) (simp_all add: white_width_def)
  then show ?thesis
    by (simp add: good_line_def demo_metering_def as_bytes_def utf8_width_def Let_def)
qed

section \<open>The tool\<close>

text \<open>C33. The tool bills the event file: run on a file that held some events and had others appended by the
  library, for a product code that is not blank, it prints the payload with one record for each of
  these events in order and succeeds; with more than the 25 records the service accepts it prints
  nothing, says so on standard error and fails.\<close>

theorem tool_bills_event_file:
  assumes "fs path = Some c" and "c = [] \<or> last c = CHR 0x0A" and "read_events_jsonl mc fs path = Inr old"
    and "\<And>e. e \<in> set evs \<Longrightarrow> \<exists>l. good_line mc e l" and "\<not> trim_is_empty product"
    and "mc_to_string mc (payload_json
      \<lparr>bp_product_code = product, usage_records = map to_usage_record (old @ evs)\<rparr>) = Inr text"
  shows "tool_main mc (append_all mc fs path evs) [product, path] =
    (if length (old @ evs) \<le> 25 then (0, text @ [CHR 0x0A], [])
     else (1, [], ''error: too many records for BatchMeterUsage: '' @ show_nat (length (old @ evs)) @
       ''; maximum is 25'' @ [CHR 0x0A]))"
  using jsonl_round_trip [OF assms(1-4)] assms(5,6)
  by (simp add: tool_main_def tool_error_text_def metering_error_text_def run_def batch_payload_def require_def
      ensure_def)

theorem tool_bills_event_file_witness:
  "tool_main demo_metering (append_all demo_metering [''f'' \<mapsto> []] ''f'' (replicate 2 demo_event)) [''p'', ''f''] =
    (if length ([] @ replicate 2 demo_event) \<le> 25 then (0, ''{}'' @ [CHR 0x0A], [])
     else (1, [], ''error: too many records for BatchMeterUsage: '' @ show_nat (length ([] @ replicate 2 demo_event)) @
       ''; maximum is 25'' @ [CHR 0x0A]))"
proof (rule tool_bills_event_file [where c = "[]"])
  show "\<exists>l. good_line demo_metering e l" if "e \<in> set (replicate 2 demo_event)" for e
    using that demo_good_line by auto
qed (simp_all add: read_events_jsonl_def visible_text demo_writer)

end
