(* ===== verification/Proxy.thy ===== *)
theory Proxy
  imports Externals Framing
begin

text \<open>
  The parent proxy, \<open>crates/vsock-parent-proxy/src/main.rs\<close>: the forwarding handlers, the round trip to
  the enclave with its error mapping and metrics, and the rebuilt HTTP response. The HTTP server, the
  header types of the \<open>http\<close> crate and the vsock transport are parameters; \<open>None\<close> is a panic of the
  request's task.
\<close>

record metrics =
  m_requests :: u64
  m_errors :: u64
  m_latency_ms :: "u64 list"

record http_request =
  hr_headers :: "(string \<times> bytes) list"
  hr_body :: bytes

record http_response =
  h_status :: u16
  h_headers :: "(string \<times> string) list"
  h_body :: bytes

datatype app_error = Upstream string | Timeout

text \<open>What the transport does with the bytes written to a fresh connection, and how long it took.\<close>

datatype vsock_outcome = Timed_out | Connect_failed | Write_failed string | Reply bytes

record proxy_io =
  px_cid :: u32
  px_port :: u32
  px_vsock :: "bytes \<Rightarrow> vsock_outcome"
  px_elapsed_ms :: u64
  px_to_str :: "bytes \<Rightarrow> string option"
  px_header :: "string \<Rightarrow> string \<Rightarrow> (string \<times> string) option"
  px_eof_text :: string

definition new_metrics :: metrics where
  "new_metrics = \<lparr>m_requests = 0, m_errors = 0, m_latency_ms = []\<rparr>"

definition header_map :: "externals \<Rightarrow> proxy_io \<Rightarrow> (string \<times> bytes) list \<Rightarrow> (string \<times> json) list" where
  "header_map ext px headers =
     foldl (\<lambda>m (name, value).
       (case px_to_str px value of None \<Rightarrow> m | Some s \<Rightarrow> map_insert ext name (JString s) m)) [] headers"

definition envelope_json :: "vsock_envelope \<Rightarrow> json" where
  "envelope_json e = JObject
     [(''method'', JString (env_method e)),
      (''path'', JString (env_path e)),
      (''headers'', JObject (env_headers e)),
      (''body_b64'', JString (env_body_b64 e))]"

definition frame_error_text :: "proxy_io \<Rightarrow> frame_error \<Rightarrow> string" where
  "frame_error_text px e = (case e of Unexpected_eof \<Rightarrow> px_eof_text px | Bail s \<Rightarrow> s)"

text \<open>The body of the timed block.\<close>

definition round_trip :: "externals \<Rightarrow> proxy_io \<Rightarrow> bytes \<Rightarrow> app_error + vsock_response" where
  "round_trip ext px req_bytes =
     (case px_vsock px (proxy_write_framed [] req_bytes) of
        Timed_out \<Rightarrow> Inl Timeout
      | Connect_failed \<Rightarrow> Inl (Upstream (''vsock connect cid='' @ show_nat (unat (px_cid px)) @
          '' port='' @ show_nat (unat (px_port px))))
      | Write_failed e \<Rightarrow> Inl (Upstream e)
      | Reply stream \<Rightarrow>
     (case proxy_read_framed stream of
        Inl e \<Rightarrow> Inl (Upstream (frame_error_text px e))
      | Inr (resp_bytes, _) \<Rightarrow>
          ok_or (Upstream ''decode VsockResponse'') (parse_response ext resp_bytes)))"

text \<open>The builder refuses a status outside 100 to 999 and header names and values that are not legal, and
  the final \<open>unwrap\<close> panics then; \<open>px_header\<close> is the crate's conversion of a name and a value.\<close>

definition rebuild :: "externals \<Rightarrow> proxy_io \<Rightarrow> vsock_response \<Rightarrow> http_response option" where
  "rebuild ext px resp =
     (let body_bytes = (case b64_decode ext (resp_body_b64 resp) of None \<Rightarrow> [] | Some b \<Rightarrow> b);
          headers = List.map_filter (\<lambda>(k, v). map_option (\<lambda>s. (k, s)) (as_str v)) (resp_headers resp) in
      if 100 \<le> resp_status resp \<and> resp_status resp \<le> 999 then
        map_option (\<lambda>hs. \<lparr>h_status = resp_status resp, h_headers = hs, h_body = body_bytes\<rparr>)
          (those (map (\<lambda>(k, s). px_header px k s) headers))
      else None)"

definition proxy_envelope ::
  "externals \<Rightarrow> proxy_io \<Rightarrow> string \<Rightarrow> string \<Rightarrow> http_request \<Rightarrow> vsock_envelope"
where
  "proxy_envelope ext px method path req =
     \<lparr>env_method = method, env_path = path, env_headers = header_map ext px (hr_headers req),
      env_body_b64 = b64_encode ext (hr_body req)\<rparr>"

text \<open>What \<open>?\<close> makes of an error of the JSON crate.\<close>

definition from_serde_json :: "string \<Rightarrow> app_error" where
  "from_serde_json e = Upstream e"

definition do_forward ::
  "externals \<Rightarrow> proxy_io \<Rightarrow> metrics \<Rightarrow> string \<Rightarrow> string \<Rightarrow> http_request \<Rightarrow> (app_error + http_response) option \<times> metrics"
where
  "do_forward ext px mt method path req =
     (let mt = mt\<lparr>m_requests := m_requests mt + 1\<rparr>;
          envelope = proxy_envelope ext px method path req in
      case json_to_vec ext (envelope_json envelope) of
        None \<Rightarrow> (Some (Inl (from_serde_json (json_error ext))), mt)
      | Some req_bytes \<Rightarrow>
     (let result = round_trip ext px req_bytes;
          mt = mt\<lparr>m_latency_ms := m_latency_ms mt @ [px_elapsed_ms px]\<rparr> in
      case result of
        Inl e \<Rightarrow> (Some (Inl e), mt\<lparr>m_errors := m_errors mt + 1\<rparr>)
      | Inr resp \<Rightarrow> (map_option Inr (rebuild ext px resp), mt)))"

definition error_response :: "externals \<Rightarrow> app_error \<Rightarrow> u16 \<times> json" where
  "error_response ext e =
     (case e of
        Upstream s \<Rightarrow> (502, obj ext [(''error'', JString ''upstream''), (''detail'', JString s)])
      | Timeout \<Rightarrow> (504, obj ext [(''error'', JString ''enclave_timeout'')]))"

section \<open>Routes\<close>

definition health :: string where
  "health = ''ok''"

definition forward_attestation where
  "forward_attestation ext px mt req = do_forward ext px mt ''GET'' ''/v1/attestation'' req"

definition forward_inference where
  "forward_inference ext px mt req = do_forward ext px mt ''POST'' ''/v1/gateway/inference'' req"

definition forward_ledger_root where
  "forward_ledger_root ext px mt req = do_forward ext px mt ''GET'' ''/v1/ledger/root'' req"

definition forward_path where
  "forward_path ext px mt (idx :: u64) req =
     do_forward ext px mt ''GET'' (''/v1/ledger/proof/'' @ show_nat (unat idx)) req"

definition forward_consistency where
  "forward_consistency ext px mt (from_size :: u64) req =
     do_forward ext px mt ''GET'' (''/v1/ledger/consistency/'' @ show_nat (unat from_size)) req"

section \<open>Lemmas\<close>

lemma lookup_header_map:
  assumes "object_map (map_insert ext)"
  shows "map_of (header_map ext px headers) k =
    map_of (rev (List.map_filter (\<lambda>(n, v). map_option (\<lambda>s. (n, JString s)) (px_to_str px v)) headers)) k"
proof -
  have lookup: "\<And>k v n. map_of (map_insert ext k v n) = (map_of n)(k \<mapsto> v)"
    using object_map.ins_lookup [OF assms] .
  have "map_of (foldl (\<lambda>m (name, value).
       (case px_to_str px value of None \<Rightarrow> m | Some s \<Rightarrow> map_insert ext name (JString s) m)) m headers) =
    map_of m ++ map_of (rev (List.map_filter (\<lambda>(n, v). map_option (\<lambda>s. (n, JString s)) (px_to_str px v)) headers))" for m
    by (induction headers arbitrary: m)
      (auto simp: lookup List.map_filter_simps map_add_def fun_eq_iff split: option.splits)
  then show ?thesis by (simp add: header_map_def)
qed

end
