(* ===== verification/Proxy_Server.thy ===== *)
theory Proxy_Server
  imports Proxy
begin

text \<open>
  The process around the proxy's handlers, \<open>main\<close> of \<open>crates/vsock-parent-proxy/src/main.rs\<close>: its
  configuration and shared state, the notifications to systemd, the order of its effects, the route table and
  the path of one HTTP request through it. The parts of \<open>axum\<close> and \<open>prometheus\<close> it calls are the fields of
  \<open>axum_crate\<close>; \<open>routes_as_documented\<close> says what the properties rely on.
\<close>

section \<open>Configuration\<close>

text \<open>\<open>cli_args\<close>: what the command line or the environment gives for each option.\<close>

record cli_args =
  cli_listen :: "string option"
  cli_cid :: "u32 option"
  cli_port :: "u32 option"
  cli_timeout_ms :: "u64 option"

record args =
  listen :: string
  enclave_cid :: u32
  enclave_port :: u32
  timeout_ms :: u64

definition parse_args :: "cli_args \<Rightarrow> args" where
  "parse_args cli =
     \<lparr>listen = (case cli_listen cli of None \<Rightarrow> ''0.0.0.0:8090'' | Some l \<Rightarrow> l),
      enclave_cid = (case cli_cid cli of None \<Rightarrow> 16 | Some c \<Rightarrow> c),
      enclave_port = (case cli_port cli of None \<Rightarrow> 5000 | Some p \<Rightarrow> p),
      timeout_ms = (case cli_timeout_ms cli of None \<Rightarrow> 30000 | Some t \<Rightarrow> t)\<rparr>"

record app_state =
  as_cid :: u32
  as_port :: u32
  as_timeout_ms :: u64
  as_metrics :: metrics

definition main_state :: "args \<Rightarrow> app_state" where
  "main_state a =
     \<lparr>as_cid = enclave_cid a, as_port = enclave_port a, as_timeout_ms = timeout_ms a, as_metrics = new_metrics\<rparr>"

section \<open>Systemd\<close>

datatype notify_state = Ready | Status string | Watchdog

definition notify_systemd_ready :: "string \<Rightarrow> notify_state list" where
  "notify_systemd_ready addr = [Ready, Status (''listening on '' @ addr)]"

text \<open>A duration in nanoseconds; \<open>None\<close> when the watchdog is off.\<close>

definition watchdog_tick :: "nat option \<Rightarrow> nat option" where
  "watchdog_tick enabled =
     (case enabled of
        None \<Rightarrow> None
      | Some period \<Rightarrow> (let tick = period div 2 in Some (if tick < 1000000000 then 1000000000 else tick)))"

text \<open>The task it spawns notifies at every tick of an interval, whose first tick is immediate: the times of the
  first notifications, in nanoseconds from the start.\<close>

definition watchdog_times :: "nat \<Rightarrow> nat \<Rightarrow> nat list" where
  "watchdog_times tick k = map (\<lambda>i. i * tick) [0..<k]"

text \<open>Systemd expects a notification in every window of its period. The task keeps that for every period of at
  least a second and for no shorter one, since the tick is never shorter than a second.\<close>

lemma watchdog_fed:
  assumes "watchdog_tick (Some period) = Some tick"
  shows "(\<forall>t. \<exists>k. \<exists>u \<in> set (watchdog_times tick k). t \<le> u \<and> u < t + period) \<longleftrightarrow> 1000000000 \<le> period"
proof
  assume "\<forall>t. \<exists>k. \<exists>u \<in> set (watchdog_times tick k). t \<le> u \<and> u < t + period"
  then obtain i where i: "1 \<le> i * tick" "i * tick < 1 + period"
    by (fastforce simp: watchdog_times_def dest: spec [of _ 1])
  then have "tick \<le> period" by (cases i) (auto simp: Suc_le_eq)
  with assms show "1000000000 \<le> period" by (auto simp: watchdog_tick_def Let_def split: if_splits)
next
  assume "1000000000 \<le> period"
  with assms have tick: "0 < tick" "tick \<le> period" by (auto simp: watchdog_tick_def Let_def split: if_splits)
  show "\<forall>t. \<exists>k. \<exists>u \<in> set (watchdog_times tick k). t \<le> u \<and> u < t + period"
  proof
    fix t
    let ?i = "(t + tick - 1) div tick"
    have "t + tick - 1 = ?i * tick + (t + tick - 1) mod tick" by simp
    moreover have "(t + tick - 1) mod tick < tick" using tick(1) by simp
    ultimately have "t \<le> ?i * tick" "?i * tick < t + period" using tick by linarith+
    then show "\<exists>k. \<exists>u \<in> set (watchdog_times tick k). t \<le> u \<and> u < t + period"
      by (intro exI [of _ "Suc ?i"] bexI [of _ "?i * tick"]) (auto simp: watchdog_times_def)
  qed
qed

section \<open>The main function\<close>

text \<open>What \<open>main\<close> does to its surroundings, in order, and how it ends: \<open>bind_error\<close> and \<open>serve_error\<close> are the
  errors of the listener and of the server; an error is its chain of contexts.\<close>

datatype proxy_effect = Bound string | Notified "notify_state list" | Watchdog_spawned nat | Served

definition proxy_main ::
  "cli_args \<Rightarrow> (string \<Rightarrow> string option) \<Rightarrow> nat option \<Rightarrow> string option \<Rightarrow> proxy_effect list \<times> (string list + unit)"
where
  "proxy_main cli bind_error watchdog_enabled serve_error =
     (let a = parse_args cli in
      case bind_error (listen a) of
        Some e \<Rightarrow> ([], Inl [''bind '' @ listen a, e])
      | None \<Rightarrow>
     (let effects = [Bound (listen a), Notified (notify_systemd_ready (listen a))] @
            (case watchdog_tick watchdog_enabled of None \<Rightarrow> [] | Some tick \<Rightarrow> [Watchdog_spawned tick]) @ [Served] in
      case serve_error of
        Some e \<Rightarrow> (effects, Inl [''axum serve'', e])
      | None \<Rightarrow> (effects, Inr ())))"

section \<open>Routes\<close>

datatype route_handler =
    Health | Metrics_handler | Forward_attestation | Forward_inference | Forward_ledger_root
  | Forward_path | Forward_consistency

definition routes :: "(string \<times> string \<times> route_handler) list" where
  "routes =
     [(''/health'', ''GET'', Health),
      (''/metrics'', ''GET'', Metrics_handler),
      (''/v1/attestation'', ''GET'', Forward_attestation),
      (''/v1/gateway/inference'', ''POST'', Forward_inference),
      (''/v1/ledger/root'', ''GET'', Forward_ledger_root),
      (''/v1/ledger/proof/:idx'', ''GET'', Forward_path),
      (''/v1/ledger/consistency/:from_size'', ''GET'', Forward_consistency)]"

text \<open>\<open>ax_match\<close> matches a path with a pattern and returns the captured segments, \<open>ax_method\<close> tells whether a
  route for the first method takes a request with the second, \<open>ax_u64\<close> is the extractor of path
  parameters, \<open>ax_body_error\<close> the rejection of a body that cannot be read, \<open>ax_not_found\<close> and
  \<open>ax_method_not_allowed\<close> the router's own replies to a method (the second also lists the method of the
  route), \<open>ax_finish\<close> what the server does to a response depending on the request's method.\<close>

record axum_crate =
  ax_match :: "string \<Rightarrow> string \<Rightarrow> string list option"
  ax_method :: "string \<Rightarrow> string \<Rightarrow> bool"
  ax_u64 :: "string list \<Rightarrow> u64 option"
  ax_bad_path :: "string list \<Rightarrow> http_response"
  ax_body_error :: "bytes \<Rightarrow> http_response option"
  ax_not_found :: "string \<Rightarrow> http_response"
  ax_method_not_allowed :: "string \<Rightarrow> string \<Rightarrow> http_response"
  ax_text :: "u16 \<Rightarrow> string \<Rightarrow> http_response"
  ax_json :: "u16 \<Rightarrow> json \<Rightarrow> http_response"
  ax_finish :: "string \<Rightarrow> http_response \<Rightarrow> http_response"
  prom_text :: "metrics \<Rightarrow> string"

definition metrics_handler :: "axum_crate \<Rightarrow> metrics \<Rightarrow> http_response" where
  "metrics_handler ax mt = ax_text ax 200 (prom_text ax mt)"

definition into_response :: "externals \<Rightarrow> axum_crate \<Rightarrow> app_error + http_response \<Rightarrow> http_response" where
  "into_response ext ax r =
     (case r of
        Inr resp \<Rightarrow> resp
      | Inl e \<Rightarrow> (case error_response ext e of (status, body) \<Rightarrow> ax_json ax status body))"

text \<open>The extractors run in the order of the handler's arguments: path, then body.\<close>

definition with_body ::
  "axum_crate \<Rightarrow> metrics \<Rightarrow> http_request \<Rightarrow> (http_response option \<times> metrics) \<Rightarrow> http_response option \<times> metrics"
where
  "with_body ax mt req result =
     (case ax_body_error ax (hr_body req) of Some rejection \<Rightarrow> (Some rejection, mt) | None \<Rightarrow> result)"

definition with_index ::
  "axum_crate \<Rightarrow> metrics \<Rightarrow> string list \<Rightarrow> (u64 \<Rightarrow> http_response option \<times> metrics) \<Rightarrow> http_response option \<times> metrics"
where
  "with_index ax mt captures handle =
     (case ax_u64 ax captures of
        None \<Rightarrow> (Some (ax_bad_path ax captures), mt)
      | Some idx \<Rightarrow> handle idx)"

definition call_handler ::
  "externals \<Rightarrow> axum_crate \<Rightarrow> proxy_io \<Rightarrow> metrics \<Rightarrow> route_handler \<Rightarrow> string list \<Rightarrow> http_request \<Rightarrow>
   http_response option \<times> metrics"
where
  "call_handler ext ax px mt h captures req =
     (let respond = (\<lambda>(r, mt'). (map_option (into_response ext ax) r, mt')) in
      case h of
        Health \<Rightarrow> (Some (ax_text ax 200 health), mt)
      | Metrics_handler \<Rightarrow> (Some (metrics_handler ax mt), mt)
      | Forward_attestation \<Rightarrow> with_body ax mt req (respond (forward_attestation ext px mt req))
      | Forward_inference \<Rightarrow> with_body ax mt req (respond (forward_inference ext px mt req))
      | Forward_ledger_root \<Rightarrow> with_body ax mt req (respond (forward_ledger_root ext px mt req))
      | Forward_path \<Rightarrow> with_index ax mt captures (\<lambda>idx.
          with_body ax mt req (respond (forward_path ext px mt idx req)))
      | Forward_consistency \<Rightarrow> with_index ax mt captures (\<lambda>from_size.
          with_body ax mt req (respond (forward_consistency ext px mt from_size req))))"

text \<open>One request through the application; \<open>px\<close> is the transport the request sees.\<close>

definition handle_http ::
  "externals \<Rightarrow> axum_crate \<Rightarrow> proxy_io \<Rightarrow> app_state \<Rightarrow> string \<Rightarrow> string \<Rightarrow> http_request \<Rightarrow> http_response option \<times> app_state"
where
  "handle_http ext ax px s method path req =
     (case find (\<lambda>(pattern, _, _). ax_match ax pattern path \<noteq> None) routes of
        None \<Rightarrow> (Some (ax_not_found ax method), s)
      | Some (pattern, m, h) \<Rightarrow>
          (if ax_method ax m method then
             (let (r, mt) = call_handler ext ax (px\<lparr>px_cid := as_cid s, px_port := as_port s\<rparr>) (as_metrics s) h
                (the (ax_match ax pattern path)) req in
              (map_option (ax_finish ax method) r, s\<lparr>as_metrics := mt\<rparr>))
           else (Some (ax_method_not_allowed ax m method), s)))"

section \<open>What the router promises\<close>

text \<open>The documented behaviour of \<open>axum\<close> and \<open>matchit\<close> for the patterns of this router only: a pattern without a
  parameter matches its own path; a pattern that ends in a parameter matches paths that go on with one
  segment after its prefix, and captures a decimal number there as it is; the extractor of a \<open>u64\<close> reads a
  decimal number that fits; \<open>get\<close> takes \<open>GET\<close> and \<open>HEAD\<close>, \<open>post\<close> takes \<open>POST\<close>. A response to \<open>GET\<close> or \<open>POST\<close> with
  one of the enclave's statuses and no header but its content type keeps status, body and that header; the
  server may add others, such as the length and the date.\<close>

definition literal_paths :: "string list" where
  "literal_paths =
     [''/health'', ''/metrics'', ''/v1/attestation'', ''/v1/gateway/inference'', ''/v1/ledger/root'']"

definition parameter_pattern :: "axum_crate \<Rightarrow> string \<Rightarrow> string \<Rightarrow> bool" where
  "parameter_pattern ax pre pattern \<longleftrightarrow>
     (\<forall>path captures. ax_match ax pattern path = Some captures \<longrightarrow> (\<exists>segment. path = pre @ segment)) \<and>
     (\<forall>n. ax_match ax pattern (pre @ show_nat n) = Some [show_nat n])"

definition adds_headers :: "axum_crate \<Rightarrow> bool" where
  "adds_headers ax \<longleftrightarrow> (\<forall>m resp. m = ''GET'' \<or> m = ''POST'' \<longrightarrow> h_status resp \<in> {200, 400, 404, 500} \<longrightarrow>
     list_all (\<lambda>h. fst h = ''content-type'') (h_headers resp) \<longrightarrow>
     h_status (ax_finish ax m resp) = h_status resp \<and> h_body (ax_finish ax m resp) = h_body resp \<and>
     set (h_headers resp) \<subseteq> set (h_headers (ax_finish ax m resp)))"

definition routes_as_documented :: "axum_crate \<Rightarrow> bool" where
  "routes_as_documented ax \<longleftrightarrow>
     (\<forall>pattern \<in> set literal_paths. \<forall>path. ax_match ax pattern path = (if path = pattern then Some [] else None)) \<and>
     parameter_pattern ax ''/v1/ledger/proof/'' ''/v1/ledger/proof/:idx'' \<and>
     parameter_pattern ax ''/v1/ledger/consistency/'' ''/v1/ledger/consistency/:from_size'' \<and>
     (\<forall>n < 2 ^ 64. ax_u64 ax [show_nat n] = Some (word_of_nat n)) \<and>
     (\<forall>m. (ax_method ax ''GET'' m \<longleftrightarrow> m = ''GET'' \<or> m = ''HEAD'') \<and> (ax_method ax ''POST'' m \<longleftrightarrow> m = ''POST'')) \<and>
     adds_headers ax"

lemma documented_literal:
  "routes_as_documented ax \<Longrightarrow> pattern \<in> set literal_paths \<Longrightarrow>
   ax_match ax pattern path = (if path = pattern then Some [] else None)"
  by (simp add: routes_as_documented_def)

lemma documented_number:
  "routes_as_documented ax \<Longrightarrow> ax_match ax ''/v1/ledger/proof/:idx'' (''/v1/ledger/proof/'' @ show_nat n) = Some [show_nat n]"
  "routes_as_documented ax \<Longrightarrow>
   ax_match ax ''/v1/ledger/consistency/:from_size'' (''/v1/ledger/consistency/'' @ show_nat n) = Some [show_nat n]"
  by (simp_all only: routes_as_documented_def parameter_pattern_def)

lemma parameter_prefix: "parameter_pattern ax pre pattern \<Longrightarrow> ax_match ax pattern path = Some captures \<Longrightarrow> \<exists>segment. path = pre @ segment"
  by (simp add: parameter_pattern_def)

lemma documented_prefix:
  "routes_as_documented ax \<Longrightarrow> ax_match ax ''/v1/ledger/proof/:idx'' path = Some captures \<Longrightarrow>
   \<exists>segment. path = ''/v1/ledger/proof/'' @ segment"
  "routes_as_documented ax \<Longrightarrow> ax_match ax ''/v1/ledger/consistency/:from_size'' path = Some captures \<Longrightarrow>
   \<exists>segment. path = ''/v1/ledger/consistency/'' @ segment"
  by (erule parameter_prefix [rotated], simp only: routes_as_documented_def)+

lemma documented_u64: "routes_as_documented ax \<Longrightarrow> n < 2 ^ 64 \<Longrightarrow> ax_u64 ax [show_nat n] = Some (word_of_nat n)"
  by (simp add: routes_as_documented_def)

lemma documented_method:
  "routes_as_documented ax \<Longrightarrow> ax_method ax ''GET'' m \<longleftrightarrow> m = ''GET'' \<or> m = ''HEAD''"
  "routes_as_documented ax \<Longrightarrow> ax_method ax ''POST'' m \<longleftrightarrow> m = ''POST''"
  unfolding routes_as_documented_def by blast+

lemma documented_finish:
  "routes_as_documented ax \<Longrightarrow> m = ''GET'' \<or> m = ''POST'' \<Longrightarrow> status \<in> {200, 400, 404, 500} \<Longrightarrow> fst hdr = ''content-type'' \<Longrightarrow>
   \<exists>headers. ax_finish ax m \<lparr>h_status = status, h_headers = [hdr], h_body = body\<rparr> =
     \<lparr>h_status = status, h_headers = headers, h_body = body\<rparr> \<and> hdr \<in> set headers"
proof -
  let ?r = "\<lparr>h_status = status, h_headers = [hdr], h_body = body\<rparr>"
  assume doc: "routes_as_documented ax" and m: "m = ''GET'' \<or> m = ''POST''" "status \<in> {200, 400, 404, 500}" "fst hdr = ''content-type''"
  have "adds_headers ax" using doc by (simp only: routes_as_documented_def)
  from this [unfolded adds_headers_def, rule_format, OF m(1), of ?r] m(2,3)
  have "h_status (ax_finish ax m ?r) = status" "h_body (ax_finish ax m ?r) = body"
    "hdr \<in> set (h_headers (ax_finish ax m ?r))" by simp_all
  then show ?thesis by (cases "ax_finish ax m ?r") simp
qed

text \<open>The route a path belongs to.\<close>

lemma find_documented:
  assumes "routes_as_documented ax"
  shows "find (\<lambda>(pattern, _, _). ax_match ax pattern path \<noteq> None) routes =
    (if path = ''/health'' then Some (''/health'', ''GET'', Health)
     else if path = ''/metrics'' then Some (''/metrics'', ''GET'', Metrics_handler)
     else if path = ''/v1/attestation'' then Some (''/v1/attestation'', ''GET'', Forward_attestation)
     else if path = ''/v1/gateway/inference'' then Some (''/v1/gateway/inference'', ''POST'', Forward_inference)
     else if path = ''/v1/ledger/root'' then Some (''/v1/ledger/root'', ''GET'', Forward_ledger_root)
     else if ax_match ax ''/v1/ledger/proof/:idx'' path \<noteq> None then Some (''/v1/ledger/proof/:idx'', ''GET'', Forward_path)
     else if ax_match ax ''/v1/ledger/consistency/:from_size'' path \<noteq> None
     then Some (''/v1/ledger/consistency/:from_size'', ''GET'', Forward_consistency)
     else None)"
proof -
  have "ax_match ax ''/health'' path \<noteq> None \<longleftrightarrow> path = ''/health''"
    "ax_match ax ''/metrics'' path \<noteq> None \<longleftrightarrow> path = ''/metrics''"
    "ax_match ax ''/v1/attestation'' path \<noteq> None \<longleftrightarrow> path = ''/v1/attestation''"
    "ax_match ax ''/v1/gateway/inference'' path \<noteq> None \<longleftrightarrow> path = ''/v1/gateway/inference''"
    "ax_match ax ''/v1/ledger/root'' path \<noteq> None \<longleftrightarrow> path = ''/v1/ledger/root''"
    using documented_literal [OF assms] by (simp_all add: literal_paths_def)
  then show ?thesis unfolding routes_def find.simps prod.case by simp
qed

end
