(* ===== verification/Proxy_Props.thy ===== *)
theory Proxy_Props
  imports Proxy Enclave_Props
begin

text \<open>
  The properties of the proxy and of the proxy and the enclave together: what a client of the HTTP server
  gets is what the enclave's dispatcher answered, the tenant the enclave acts for is the one of the HTTP
  header, and every forwarded request is counted and mapped to the documented status.
\<close>

section \<open>Frames\<close>

text \<open>C35. Both ends speak the same frames: each reads exactly the frames of at most 64 MiB the other one
  writes, returns the payload and leaves the rest of the stream; what is longer, shorter than its header
  says or lacks a header is an error and never a truncated message.\<close>

theorem ends_agree:
  "(read_framed s = Inr (b, r) \<longleftrightarrow> length b \<le> max_frame \<and> s = proxy_write_framed [] b @ r) \<and>
   (proxy_read_framed s = Inr (b, r) \<longleftrightarrow> length b \<le> max_frame \<and> s = write_framed [] b @ r)"
  unfolding same_frames
  by (metis enclave_frames.read_write enclave_frames.read_only_frames proxy_frames.read_write
      proxy_frames.read_only_frames same_frames)

section \<open>One call through the proxy\<close>

text \<open>The enclave at the other end of the connection: it closes the connection without a byte on an error,
  and when its task panics.\<close>

definition enclave_vsock :: "externals \<Rightarrow> request_io \<Rightarrow> enclave_state \<Rightarrow> bytes \<Rightarrow> vsock_outcome" where
  "enclave_vsock ext io st stream =
     (case handle_conn ext io st stream of (Some (Inr out), _) \<Rightarrow> Reply out | _ \<Rightarrow> Reply [])"

text \<open>The JSON crate at both ends: a message is written in at most 64 MiB and read back.\<close>

definition request_crosses :: "externals \<Rightarrow> vsock_envelope \<Rightarrow> bool" where
  "request_crosses ext env \<longleftrightarrow>
     (case json_to_vec ext (envelope_json env) of
        None \<Rightarrow> False
      | Some b \<Rightarrow> parse_envelope ext b = Some env \<and> length b \<le> max_frame)"

definition response_crosses :: "externals \<Rightarrow> vsock_response \<Rightarrow> bool" where
  "response_crosses ext resp \<longleftrightarrow>
     (case json_to_vec ext (response_json resp) of
        None \<Rightarrow> False
      | Some b \<Rightarrow> parse_response ext b = Some resp \<and> length b \<le> max_frame)"

lemma handle_conn_framed:
  assumes "request_crosses ext env" and "dispatch ext io st env = (Some resp, st')" and "response_crosses ext resp"
  obtains b out where "json_to_vec ext (envelope_json env) = Some b"
    and "json_to_vec ext (response_json resp) = Some out" "parse_response ext out = Some resp"
    and "length out \<le> max_frame"
    and "handle_conn ext io st (write_framed [] b) = (Some (Inr (write_framed [] out)), st')"
proof -
  obtain b where b: "json_to_vec ext (envelope_json env) = Some b" "parse_envelope ext b = Some env"
    "length b \<le> max_frame" using assms(1) by (auto simp: request_crosses_def split: option.splits)
  obtain out where out: "json_to_vec ext (response_json resp) = Some out" "parse_response ext out = Some resp"
    "length out \<le> max_frame" using assms(3) by (auto simp: response_crosses_def split: option.splits)
  have "read_framed (write_framed [] b) = Inr (b, [])"
    using enclave_frames.read_write [OF b(3), of "[]"] by simp
  with b out assms(2) have "handle_conn ext io st (write_framed [] b) = (Some (Inr (write_framed [] out)), st')"
    by (simp add: handle_conn_eq)
  with b(1) out show thesis by (rule that)
qed

definition counted :: "proxy_io \<Rightarrow> metrics \<Rightarrow> metrics" where
  "counted px mt = mt\<lparr>m_requests := m_requests mt + 1, m_latency_ms := m_latency_ms mt @ [px_elapsed_ms px]\<rparr>"

lemma do_forward_enclave:
  assumes "px_vsock px = enclave_vsock ext io st" and "request_crosses ext (proxy_envelope ext px method path req)"
    and "dispatch ext io st (proxy_envelope ext px method path req) = (Some resp, st')"
    and "response_crosses ext resp"
  shows "do_forward ext px mt method path req = (map_option Inr (rebuild ext px resp), counted px mt)"
proof -
  obtain b out where b: "json_to_vec ext (envelope_json (proxy_envelope ext px method path req)) = Some b"
    and out: "json_to_vec ext (response_json resp) = Some out" "parse_response ext out = Some resp"
      "length out \<le> max_frame"
    and conn: "handle_conn ext io st (write_framed [] b) = (Some (Inr (write_framed [] out)), st')"
    using handle_conn_framed [OF assms(2-4)] by blast
  have "proxy_read_framed (write_framed [] out) = Inr (out, [])"
    using proxy_frames.read_write [OF out(3), of "[]"] by (simp add: same_frames)
  with out conn have "round_trip ext px b = Inr resp"
    by (simp add: round_trip_def assms(1) enclave_vsock_def same_frames)
  with b show ?thesis by (simp add: do_forward_def counted_def Let_def)
qed

lemma rebuild_json:
  assumes "\<And>b. b64_decode ext (b64_encode ext b) = Some b" and "px_header px ''content-type'' ''application/json'' = Some hdr"
    and "object_map (map_insert ext)" and "100 \<le> status" and "status \<le> 999"
    and "json_to_vec ext v = Some body"
  shows "rebuild ext px (json_resp ext status v) = Some \<lparr>h_status = status, h_headers = [hdr], h_body = body\<rparr>"
  using assms object_map.ins_largest [OF assms(3), of "[]"]
  by (simp add: rebuild_def json_resp_def List.map_filter_simps)

text \<open>The proxy is transparent: when it is connected to a healthy enclave and the JSON crate carries the two
  messages, every forwarded call returns the enclave's answer to the same method, path, headers and
  body: its status, one content type header and the bytes of its JSON document; the enclave goes through the
  state change of that answer, and the call counts as one request with one latency and no error.\<close>

lemma proxy_transparent:
  assumes "px_vsock px = enclave_vsock ext io st" and "healthy ext io"
    and "request_crosses ext (proxy_envelope ext px method path req)"
    and "\<And>resp st'. dispatch ext io st (proxy_envelope ext px method path req) = (Some resp, st') \<Longrightarrow>
      response_crosses ext resp"
    and "\<And>b. b64_decode ext (b64_encode ext b) = Some b"
    and "px_header px ''content-type'' ''application/json'' = Some hdr"
    and "object_map (map_insert ext)"
  shows "\<exists>status v body st'.
    dispatch ext io st (proxy_envelope ext px method path req) = (Some (json_resp ext status v), st') \<and>
    json_to_vec ext v = Some body \<and>
    do_forward ext px mt method path req =
      (Some (Inr \<lparr>h_status = status, h_headers = [hdr], h_body = body\<rparr>), counted px mt)"
proof -
  obtain status v st' where answer: "dispatch ext io st (proxy_envelope ext px method path req) =
      (Some (json_resp ext status v), st')" and "status \<in> {200, 400, 404, 500}"
    using dispatch_json [OF assms(2)] unfolding json_answer_def by blast
  then have ok: "100 \<le> status" "status \<le> 999" by auto
  obtain body where body: "json_to_vec ext v = Some body" using healthy_writer [OF assms(2)] by blast
  have "do_forward ext px mt method path req =
      (map_option Inr (rebuild ext px (json_resp ext status v)), counted px mt)"
    by (rule do_forward_enclave [OF assms(1,3) answer assms(4) [OF answer]])
  also have "\<dots> = (Some (Inr \<lparr>h_status = status, h_headers = [hdr], h_body = body\<rparr>), counted px mt)"
    using rebuild_json [OF assms(5-7) ok body] by simp
  finally show ?thesis using answer body by blast
qed

definition demo_envelope :: vsock_envelope where
  "demo_envelope = \<lparr>env_method = ''GET'', env_path = ''/nowhere'', env_headers = [], env_body_b64 = []\<rparr>"

definition demo_answer :: vsock_response where
  "demo_answer = json_resp demo_gateway 404 (obj demo_gateway
     [(''error'', JString ''not found''), (''method'', JString ''GET''), (''path'', JString ''/nowhere'')])"

definition demo_wire :: externals where
  "demo_wire = demo_gateway\<lparr>parse_envelope := \<lambda>_. Some demo_envelope, parse_response := \<lambda>_. Some demo_answer\<rparr>"

definition demo_proxy :: proxy_io where
  "demo_proxy = \<lparr>px_cid = 16, px_port = 8080, px_vsock = enclave_vsock demo_wire demo_io demo_state,
     px_elapsed_ms = 2, px_to_str = (\<lambda>_. None), px_header = (\<lambda>k s. Some (k, s)), px_eof_text = ''early eof''\<rparr>"

definition demo_http :: http_request where
  "demo_http = \<lparr>hr_headers = [], hr_body = []\<rparr>"

section \<open>Tenants\<close>

text \<open>C39. The tenant the enclave acts for is the one the HTTP client names: it is the last
  \<open>x-tenant-id\<close> header whose value is text, whatever other headers come with it, and \<open>demo\<close> when there
  is none; the map the headers travel in neither loses nor mixes them.\<close>

theorem tenant_from_header:
  assumes "object_map (map_insert ext)"
  shows "tenant_of (proxy_envelope ext px method path req) =
    (case List.map_filter (\<lambda>(n, v). if n = ''x-tenant-id'' then px_to_str px v else None) (hr_headers req) of
       [] \<Rightarrow> ''demo''
     | tenants \<Rightarrow> last tenants)"
proof -
  let ?text = "\<lambda>hs. List.map_filter (\<lambda>(n, v). map_option (\<lambda>s. (n, JString s)) (px_to_str px v)) hs"
  let ?tenants = "\<lambda>hs. List.map_filter (\<lambda>(n, v). if n = ''x-tenant-id'' then px_to_str px v else None) hs"
  have "map_of (rev (?text hs)) ''x-tenant-id'' =
    (if ?tenants hs = [] then None else Some (JString (last (?tenants hs))))" for hs
    by (induction hs) (auto simp: List.map_filter_simps map_add_def split: option.split)
  then show ?thesis
    by (simp add: tenant_of_def proxy_envelope_def lookup_header_map [OF assms] split: list.split)
qed

theorem tenant_from_header_witness:
  "tenant_of (proxy_envelope demo_ext (demo_proxy\<lparr>px_to_str := \<lambda>b. Some (copy_text b)\<rparr>) ''POST'' ''/v1/gateway/inference''
     (demo_http\<lparr>hr_headers := [(''x-tenant-id'', [0x61]), (''accept'', [0x62]), (''x-tenant-id'', [0x63])]\<rparr>)) = copy_text [0x63]"
  by (subst tenant_from_header) (simp_all add: demo_http_def List.map_filter_simps)

section \<open>Metrics and errors\<close>

text \<open>One call: what it does to the counters and which status a failure has.\<close>

lemma forward_accounting:
  "case do_forward ext px mt verb path req of (result, mt') \<Rightarrow>
   (case json_to_vec ext (envelope_json (proxy_envelope ext px verb path req)) of
      None \<Rightarrow> mt' = mt\<lparr>m_requests := m_requests mt + 1\<rparr> \<and> result = Some (Inl (Upstream (json_error ext)))
    | Some b \<Rightarrow>
   (case round_trip ext px b of
      Inl e \<Rightarrow> mt' = (counted px mt)\<lparr>m_errors := m_errors mt + 1\<rparr> \<and> result = Some (Inl e) \<and>
        fst (error_response ext e) =
          (if px_vsock px (write_framed [] b) = Timed_out then 504 else 502)
    | Inr resp \<Rightarrow> mt' = counted px mt \<and> result = map_option Inr (rebuild ext px resp)))"
proof (cases "json_to_vec ext (envelope_json (proxy_envelope ext px verb path req))")
  case (Some b)
  have "fst (error_response ext e) = (if px_vsock px (write_framed [] b) = Timed_out then 504 else 502)"
    if "round_trip ext px b = Inl e" for e
    using that by (auto simp: round_trip_def error_response_def same_frames ok_or_def
        split: vsock_outcome.splits sum.splits option.splits)
  with Some show ?thesis by (simp add: do_forward_def counted_def Let_def split: sum.split)
qed (simp add: do_forward_def from_serde_json_def)

text \<open>A sequence of calls on one set of counters; each has its own transport.\<close>

type_synonym call = "proxy_io \<times> string \<times> string \<times> http_request"

fun forward_all :: "externals \<Rightarrow> metrics \<Rightarrow> call list \<Rightarrow> (app_error + http_response) option list \<times> metrics" where
  "forward_all ext mt [] = ([], mt)"
| "forward_all ext mt ((px, verb, path, req) # calls) =
     (let (r, mt) = do_forward ext px mt verb path req; (rs, mt) = forward_all ext mt calls in (r # rs, mt))"

definition status_of :: "externals \<Rightarrow> (app_error + http_response) option \<Rightarrow> u16 option" where
  "status_of ext r = map_option (\<lambda>r. case r of Inl e \<Rightarrow> fst (error_response ext e) | Inr h \<Rightarrow> h_status h) r"

definition failed :: "(app_error + http_response) option \<Rightarrow> bool" where
  "failed r \<longleftrightarrow> (case r of Some (Inl _) \<Rightarrow> True | _ \<Rightarrow> False)"

definition timed_out :: "externals \<Rightarrow> call \<Rightarrow> bool" where
  "timed_out ext c \<longleftrightarrow> (case c of (px, verb, path, req) \<Rightarrow>
     (case json_to_vec ext (envelope_json (proxy_envelope ext px verb path req)) of
        None \<Rightarrow> False
      | Some b \<Rightarrow> px_vsock px (write_framed [] b) = Timed_out))"

definition mapped :: "externals \<Rightarrow> call \<Rightarrow> (app_error + http_response) option \<Rightarrow> bool" where
  "mapped ext c r \<longleftrightarrow> (if timed_out ext c then failed r \<and> status_of ext r = Some 504
     else if failed r then status_of ext r = Some 502 else True)"

lemma forward_counts:
  assumes "\<And>v. json_to_vec ext v \<noteq> None" and "do_forward ext px mt verb path req = (r, mt')"
  shows "mapped ext (px, verb, path, req) r \<and> m_requests mt' = m_requests mt + 1 \<and>
    m_errors mt' = m_errors mt + (if failed r then 1 else 0) \<and>
    m_latency_ms mt' = m_latency_ms mt @ [px_elapsed_ms px]"
proof -
  obtain b where b: "json_to_vec ext (envelope_json (proxy_envelope ext px verb path req)) = Some b"
    using assms(1) by blast
  note acc = forward_accounting [where ext = ext and px = px and mt = mt and verb = verb and path = path and
      req = req, unfolded assms(2) b, simplified]
  show ?thesis
  proof (cases "round_trip ext px b")
    case (Inl e)
    with acc b show ?thesis by (simp add: mapped_def timed_out_def failed_def status_of_def counted_def)
  next
    case (Inr resp)
    then have "px_vsock px (write_framed [] b) \<noteq> Timed_out" by (auto simp: round_trip_def same_frames)
    with Inr acc b show ?thesis
      by (cases "rebuild ext px resp") (simp_all add: mapped_def timed_out_def failed_def counted_def)
  qed
qed

text \<open>C40. The counters of the proxy tell the truth: after any sequence of calls from start-up, the request
  counter is their number, the error counter is the number of calls answered as failures, and the
  latencies observed are those of all the calls in order; a call is answered with 504 exactly when its
  round trip timed out, and with 502 on every other failure.\<close>

theorem counters_tell_truth:
  assumes "\<And>v. json_to_vec ext v \<noteq> None" and "forward_all ext new_metrics calls = (results, mt)"
  shows "list_all2 (mapped ext) calls results \<and> m_requests mt = word_of_nat (length calls) \<and>
    m_errors mt = word_of_nat (length (filter failed results)) \<and>
    m_latency_ms mt = map (\<lambda>(px, _). px_elapsed_ms px) calls"
proof -
  have "list_all2 (mapped ext) calls results \<and> m_requests mt = m_requests mt0 + word_of_nat (length calls) \<and>
    m_errors mt = m_errors mt0 + word_of_nat (length (filter failed results)) \<and>
    m_latency_ms mt = m_latency_ms mt0 @ map (\<lambda>(px, _). px_elapsed_ms px) calls"
    if "forward_all ext mt0 calls = (results, mt)" for mt0
    using that
  proof (induction calls arbitrary: mt0 results)
    case (Cons c calls)
    obtain px verb path req where c: "c = (px, verb, path, req)" by (cases c)
    obtain r m1 where first: "do_forward ext px mt0 verb path req = (r, m1)"
      by (cases "do_forward ext px mt0 verb path req")
    obtain rs m2 where rest: "forward_all ext m1 calls = (rs, m2)" by (cases "forward_all ext m1 calls")
    from Cons.prems c first rest have "results = r # rs" "m2 = mt" by simp_all
    with forward_counts [OF assms(1) first] Cons.IH rest c show ?case by auto
  qed simp
  from this [OF assms(2)] show ?thesis by (simp add: new_metrics_def)
qed

theorem counters_tell_truth_witness:
  "\<exists>results mt. forward_all demo_wire new_metrics
      [(demo_proxy, ''GET'', ''/nowhere'', demo_http),
       (demo_proxy\<lparr>px_vsock := \<lambda>_. Timed_out\<rparr>, ''GET'', ''/nowhere'', demo_http)] = (results, mt :: metrics) \<and>
    list_all2 (mapped demo_wire)
      [(demo_proxy, ''GET'', ''/nowhere'', demo_http),
       (demo_proxy\<lparr>px_vsock := \<lambda>_. Timed_out\<rparr>, ''GET'', ''/nowhere'', demo_http)] results \<and>
    m_requests mt = word_of_nat 2 \<and> m_errors mt = word_of_nat (length (filter failed results))"
proof -
  let ?calls = "[(demo_proxy, ''GET'', ''/nowhere'', demo_http),
    (demo_proxy\<lparr>px_vsock := \<lambda>_. Timed_out\<rparr>, ''GET'', ''/nowhere'', demo_http)]"
  obtain results mt where run: "forward_all demo_wire new_metrics ?calls = (results, mt)"
    by (cases "forward_all demo_wire new_metrics ?calls")
  have "json_to_vec demo_wire v \<noteq> None" for v by (simp add: demo_wire_def)
  from counters_tell_truth [OF this run] have
    "list_all2 (mapped demo_wire) ?calls results" "m_requests mt = word_of_nat 2"
    "m_errors mt = word_of_nat (length (filter failed results))" by simp_all
  with run show ?thesis by blast
qed

end
