(* ===== verification/Gateway_Calls.thy ===== *)
theory Gateway_Calls
  imports Proxy_Server Proxy_Props
begin

text \<open>
  The protocol between the HTTP client and the enclave: its five calls as a specification, how the proxy's
  route table carries each of them to the enclave, and what comes back over a healthy connection.
\<close>

section \<open>The calls of the protocol\<close>

text \<open>The specification of the interface: five calls, the method and path of each, and what the enclave does
  for it.\<close>

datatype api_call = Get_attestation | Post_inference | Get_root | Get_proof nat | Get_consistency nat

fun call_method :: "api_call \<Rightarrow> string" where
  "call_method Post_inference = ''POST''"
| "call_method _ = ''GET''"

fun call_path :: "api_call \<Rightarrow> string" where
  "call_path Get_attestation = ''/v1/attestation''"
| "call_path Post_inference = ''/v1/gateway/inference''"
| "call_path Get_root = ''/v1/ledger/root''"
| "call_path (Get_proof n) = proof_route @ show_nat n"
| "call_path (Get_consistency n) = consistency_route @ show_nat n"

fun call_index :: "api_call \<Rightarrow> nat" where
  "call_index (Get_proof n) = n"
| "call_index (Get_consistency n) = n"
| "call_index _ = 0"

fun answer_call ::
  "externals \<Rightarrow> request_io \<Rightarrow> enclave_state \<Rightarrow> bytes \<Rightarrow> string \<Rightarrow> api_call \<Rightarrow> vsock_response option \<times> enclave_state"
where
  "answer_call ext io st body tenant Get_attestation =
     (map_option (\<lambda>r. case r of
          Inr att \<Rightarrow> json_resp ext 200 (attestation_json att)
        | Inl e \<Rightarrow> error_resp ext 500 (anyhow_debug ext e)) (publish_attestation ext io st), st)"
| "answer_call ext io st body tenant Post_inference =
     (let (r, st) = process_and_delete ext io st body tenant in
      (map_option (\<lambda>r. case r of
          Inr v \<Rightarrow> json_resp ext 200 v
        | Inl e \<Rightarrow> json_resp ext 500
            (obj ext [(''ok'', JBool False), (''error'', JString (anyhow_debug ext e))])) r, st))"
| "answer_call ext io st body tenant Get_root = (map_option (json_resp ext 200) (ledger_root ext io st), st)"
| "answer_call ext io st body tenant (Get_proof n) =
     (map_option (\<lambda>r. case r of
          Some v \<Rightarrow> json_resp ext 200 v
        | None \<Rightarrow> error_resp ext 404 ''ledger_index_not_found'') (ledger_proof ext io st n), st)"
| "answer_call ext io st body tenant (Get_consistency n) =
     (map_option (\<lambda>r. case r of
          Some v \<Rightarrow> json_resp ext 200 v
        | None \<Rightarrow> error_resp ext 400 ''invalid_tree_size'') (ledger_consistency ext io st n), st)"

lemma dispatch_call:
  assumes "env_method env = call_method c" and "env_path env = call_path c" and "call_index c < 2 ^ 64"
  shows "dispatch ext io st env =
    answer_call ext io st (case b64_decode ext (env_body_b64 env) of None \<Rightarrow> [] | Some b \<Rightarrow> b) (tenant_of env) c"
proof (cases c)
  case (Get_proof n)
  with assms dispatch_proof_route [of env n ext io st] show ?thesis by simp
next
  case (Get_consistency n)
  with assms dispatch_consistency_route [of env n ext io st] show ?thesis by simp
qed (use assms in \<open>simp_all add: dispatch_eq Let_def split: prod.split\<close>)

section \<open>Calls through the proxy\<close>

text \<open>What the proxy does for a call it forwards.\<close>

definition forwards ::
  "externals \<Rightarrow> axum_crate \<Rightarrow> proxy_io \<Rightarrow> metrics \<Rightarrow> string \<Rightarrow> http_request \<Rightarrow> api_call \<Rightarrow> http_response option \<times> metrics"
where
  "forwards ext ax px mt method req c =
     (let (r, mt') = do_forward ext px mt (call_method c) (call_path c) req in
      (map_option (ax_finish ax method) (map_option (into_response ext ax) r), mt'))"

lemma forward_calls:
  "forward_attestation ext px mt req = do_forward ext px mt (call_method Get_attestation) (call_path Get_attestation) req"
  "forward_inference ext px mt req = do_forward ext px mt (call_method Post_inference) (call_path Post_inference) req"
  "forward_ledger_root ext px mt req = do_forward ext px mt (call_method Get_root) (call_path Get_root) req"
  "forward_path ext px mt i req =
     do_forward ext px mt (call_method (Get_proof (unat i))) (call_path (Get_proof (unat i))) req"
  "forward_consistency ext px mt i req =
     do_forward ext px mt (call_method (Get_consistency (unat i))) (call_path (Get_consistency (unat i))) req"
  by (simp_all add: forward_attestation_def forward_inference_def forward_ledger_root_def forward_path_def
      forward_consistency_def)

text \<open>The route of each call and what the router captures from its path.\<close>

fun call_route :: "api_call \<Rightarrow> string \<times> string \<times> route_handler" where
  "call_route Get_attestation = (''/v1/attestation'', ''GET'', Forward_attestation)"
| "call_route Post_inference = (''/v1/gateway/inference'', ''POST'', Forward_inference)"
| "call_route Get_root = (''/v1/ledger/root'', ''GET'', Forward_ledger_root)"
| "call_route (Get_proof n) = (''/v1/ledger/proof/:idx'', ''GET'', Forward_path)"
| "call_route (Get_consistency n) = (''/v1/ledger/consistency/:from_size'', ''GET'', Forward_consistency)"

fun call_captures :: "api_call \<Rightarrow> string list" where
  "call_captures (Get_proof n) = [show_nat n]"
| "call_captures (Get_consistency n) = [show_nat n]"
| "call_captures _ = []"

lemma find_route:
  assumes "routes_as_documented ax"
  shows "find (\<lambda>(pattern, _, _). ax_match ax pattern (call_path c) \<noteq> None) routes = Some (call_route c)"
    and "ax_match ax (fst (call_route c)) (call_path c) = Some (call_captures c)"
proof -
  have other: "ax_match ax ''/v1/ledger/proof/:idx'' (''/v1/ledger/consistency/'' @ show_nat n) = None" for n
    using documented_prefix(1) [OF assms, of "''/v1/ledger/consistency/'' @ show_nat n"]
    by (cases "ax_match ax ''/v1/ledger/proof/:idx'' (''/v1/ledger/consistency/'' @ show_nat n)") auto
  show "ax_match ax (fst (call_route c)) (call_path c) = Some (call_captures c)"
    using documented_literal [OF assms] documented_number [OF assms] by (cases c) (simp_all add: literal_paths_def)
  show "find (\<lambda>(pattern, _, _). ax_match ax pattern (call_path c) \<noteq> None) routes = Some (call_route c)"
    unfolding find_documented [OF assms] using documented_number [OF assms] other by (cases c) simp_all
qed

section \<open>Over a healthy connection\<close>

abbreviation call_envelope :: "externals \<Rightarrow> proxy_io \<Rightarrow> api_call \<Rightarrow> http_request \<Rightarrow> vsock_envelope" where
  "call_envelope ext px c req \<equiv> proxy_envelope ext px (call_method c) (call_path c) req"

text \<open>The transport of one request leads to this enclave, and the two messages of the call cross it.\<close>

definition connected :: "externals \<Rightarrow> proxy_io \<Rightarrow> request_io \<Rightarrow> enclave_state \<Rightarrow> api_call \<Rightarrow> http_request \<Rightarrow> bool" where
  "connected ext px io st c req \<longleftrightarrow>
     px_vsock px = enclave_vsock ext io st \<and>
     request_crosses ext (call_envelope ext px c req) \<and>
     (case fst (dispatch ext io st (call_envelope ext px c req)) of
        None \<Rightarrow> False
      | Some resp \<Rightarrow> response_crosses ext resp)"

lemma forwards_answer:
  assumes "connected ext px io st c req" and "\<And>b. b64_decode ext (b64_encode ext b) = Some b"
    and "px_header px ''content-type'' ''application/json'' = Some hdr" and "object_map (map_insert ext)"
    and "dispatch ext io st (call_envelope ext px c req) = (Some (json_resp ext status v), st')"
    and "100 \<le> status" and "status \<le> 999" and "json_to_vec ext v = Some body"
  shows "forwards ext ax px mt method req c =
    (Some (ax_finish ax method \<lparr>h_status = status, h_headers = [hdr], h_body = body\<rparr>), counted px mt)"
proof -
  have "do_forward ext px mt (call_method c) (call_path c) req =
      (map_option Inr (rebuild ext px (json_resp ext status v)), counted px mt)"
    by (rule do_forward_enclave [OF _ _ assms(5)]) (use assms(1,5) in \<open>simp_all add: connected_def\<close>)
  with rebuild_json [OF assms(2-4,6-8)] show ?thesis by (simp add: forwards_def into_response_def)
qed

text \<open>What a call needs to come through: the documented router, a readable body, an index that fits, a healthy
  enclave at the other end, base64 that decodes what it encoded and a content type that is a legal header.\<close>

definition http_ready ::
  "externals \<Rightarrow> axum_crate \<Rightarrow> proxy_io \<Rightarrow> request_io \<Rightarrow> enclave_state \<Rightarrow> api_call \<Rightarrow> http_request \<Rightarrow> string \<times> string \<Rightarrow> bool"
where
  "http_ready ext ax px io st c req hdr \<longleftrightarrow>
     routes_as_documented ax \<and> ax_body_error ax (hr_body req) = None \<and> call_index c < 2 ^ 64 \<and>
     healthy ext io \<and> connected ext px io st c req \<and> (\<forall>b. b64_decode ext (b64_encode ext b) = Some b) \<and>
     px_header px ''content-type'' ''application/json'' = Some hdr \<and> fst hdr = ''content-type'' \<and>
     object_map (map_insert ext)"

text \<open>The enclave's state after the connection that carries the call.\<close>

definition enclave_after :: "externals \<Rightarrow> proxy_io \<Rightarrow> request_io \<Rightarrow> enclave_state \<Rightarrow> api_call \<Rightarrow> http_request \<Rightarrow> enclave_state"
where
  "enclave_after ext px io st c req =
     (case json_to_vec ext (envelope_json (call_envelope ext px c req)) of
        None \<Rightarrow> st
      | Some b \<Rightarrow> snd (handle_conn ext io st (write_framed [] b)))"

lemma handle_http_call:
  assumes "routes_as_documented ax" and "ax_body_error ax (hr_body req) = None" and "call_index c < 2 ^ 64"
  shows "handle_http ext ax px s (call_method c) (call_path c) req =
    (case forwards ext ax (px\<lparr>px_cid := as_cid s, px_port := as_port s\<rparr>) (as_metrics s) (call_method c) req c of
       (r, mt) \<Rightarrow> (r, s\<lparr>as_metrics := mt\<rparr>))"
proof -
  have u: "ax_u64 ax [show_nat n] = Some (word_of_nat n)" if "n < 2 ^ 64" for n
    using documented_u64 [OF assms(1) that] .
  have m: "ax_method ax (call_method c) (call_method c)" using documented_method [OF assms(1)] by (cases c) simp_all
  have n: "unat (word_of_nat n :: u64) = n" if "n < 2 ^ 64" for n using that by (simp add: unat_of_nat)
  show ?thesis
    unfolding handle_http_def find_route(1) [OF assms(1)]
    using m find_route(2) [OF assms(1), of c] assms(3)
    by (cases c) (simp_all add: call_handler_def with_index_def u n with_body_def assms(2) forward_calls forwards_def
        case_prod_beta Let_def del: call_path.simps)
qed

lemma http_reply:
  assumes "http_ready ext ax px io st c req hdr"
    and "dispatch ext io st (call_envelope ext px c req) = (Some (json_resp ext status v), st')"
    and "status \<in> {200, 400, 404, 500}"
  shows "\<exists>body headers. json_to_vec ext v = Some body \<and> hdr \<in> set headers \<and>
    handle_http ext ax px s (call_method c) (call_path c) req =
      (Some \<lparr>h_status = status, h_headers = headers, h_body = body\<rparr>, s\<lparr>as_metrics := counted px (as_metrics s)\<rparr>) \<and>
    enclave_after ext px io st c req = st'"
proof -
  let ?px = "px\<lparr>px_cid := as_cid s, px_port := as_port s\<rparr>"
  note r = assms(1) [unfolded http_ready_def]
  have env: "call_envelope ext ?px c req = call_envelope ext px c req"
    by (simp add: proxy_envelope_def header_map_def)
  have conn: "connected ext ?px io st c req"
    using r unfolding connected_def env by simp
  have status: "100 \<le> status" "status \<le> 999" using assms(3) by auto
  obtain body where body: "json_to_vec ext v = Some body" using r healthy_writer [of ext io] by blast
  have "call_method c = ''GET'' \<or> call_method c = ''POST''" by (cases c) simp_all
  then obtain headers where fin: "ax_finish ax (call_method c) \<lparr>h_status = status, h_headers = [hdr], h_body = body\<rparr> =
      \<lparr>h_status = status, h_headers = headers, h_body = body\<rparr>" "hdr \<in> set headers"
    using documented_finish [of ax "call_method c" status hdr body] assms(3) r by blast
  have "forwards ext ax ?px (as_metrics s) (call_method c) req c =
      (Some \<lparr>h_status = status, h_headers = headers, h_body = body\<rparr>, counted ?px (as_metrics s))"
    using forwards_answer [OF conn _ _ _ _ status body, of hdr st' ax "as_metrics s" "call_method c"]
      assms(2) r by (simp add: fin(1) env)
  moreover have "enclave_after ext px io st c req = st'"
    using r assms(2) handle_conn_framed [of ext "call_envelope ext px c req" io st "json_resp ext status v" st']
    by (fastforce simp: connected_def enclave_after_def)
  ultimately show ?thesis
    using handle_http_call [of ax req c ext px s] r body fin(2) by (simp add: counted_def)
qed

end
