(* ===== verification/Gateway_Routes.thy ===== *)
theory Gateway_Routes
  imports Gateway_Calls
begin

text \<open>
  The two route tables. \<open>asks\<close> says which of the five calls a method and path ask for and \<open>other_reply\<close> what any
  other request gets, both without the proxy's table; the proxy's table does that, and the enclave's
  dispatcher answers every forwarded envelope with the handler of its call.
\<close>

section \<open>The route tables\<close>

text \<open>The interface the proxy is to offer, without its table: which call a method and path ask for, and what every
  other request gets. A \<open>HEAD\<close> request asks for what the \<open>GET\<close> of its path asks for.\<close>

definition reads :: "string \<Rightarrow> bool" where
  "reads method \<longleftrightarrow> method = ''GET'' \<or> method = ''HEAD''"

definition index_of :: "axum_crate \<Rightarrow> string \<Rightarrow> string \<Rightarrow> nat option" where
  "index_of ax pattern path = map_option unat (Option.bind (ax_match ax pattern path) (ax_u64 ax))"

fun asks :: "axum_crate \<Rightarrow> string \<Rightarrow> string \<Rightarrow> api_call \<Rightarrow> bool" where
  "asks ax method path Get_attestation \<longleftrightarrow> reads method \<and> path = ''/v1/attestation''"
| "asks ax method path Post_inference \<longleftrightarrow> method = ''POST'' \<and> path = ''/v1/gateway/inference''"
| "asks ax method path Get_root \<longleftrightarrow> reads method \<and> path = ''/v1/ledger/root''"
| "asks ax method path (Get_proof n) \<longleftrightarrow> reads method \<and> index_of ax ''/v1/ledger/proof/:idx'' path = Some n"
| "asks ax method path (Get_consistency n) \<longleftrightarrow> reads method \<and>
     index_of ax ''/v1/ledger/consistency/:from_size'' path = Some n"

definition other_reply :: "axum_crate \<Rightarrow> metrics \<Rightarrow> string \<Rightarrow> string \<Rightarrow> http_response" where
  "other_reply ax mt method path =
     (let get = (\<lambda>r. if reads method then ax_finish ax method r else ax_method_not_allowed ax ''GET'' method) in
      if path = ''/health'' then get (ax_text ax 200 ''ok'')
      else if path = ''/metrics'' then get (ax_text ax 200 (prom_text ax mt))
      else if path = ''/v1/gateway/inference'' then ax_method_not_allowed ax ''POST'' method
      else if path \<in> {''/v1/attestation'', ''/v1/ledger/root''} then ax_method_not_allowed ax ''GET'' method
      else (case (ax_match ax ''/v1/ledger/proof/:idx'' path, ax_match ax ''/v1/ledger/consistency/:from_size'' path) of
          (Some captures, _) \<Rightarrow> get (ax_bad_path ax captures)
        | (None, Some captures) \<Rightarrow> get (ax_bad_path ax captures)
        | (None, None) \<Rightarrow> ax_not_found ax method))"

text \<open>The paths of the two parameters and the literal ones exclude each other.\<close>

lemma pattern_paths:
  assumes "routes_as_documented ax"
  shows "ax_match ax ''/v1/ledger/proof/:idx'' path = Some captures \<Longrightarrow> path \<notin> set literal_paths \<and>
      ax_match ax ''/v1/ledger/consistency/:from_size'' path = None"
    and "ax_match ax ''/v1/ledger/consistency/:from_size'' path = Some captures \<Longrightarrow> path \<notin> set literal_paths \<and>
      ax_match ax ''/v1/ledger/proof/:idx'' path = None"
proof -
  have both: "ax_match ax ''/v1/ledger/proof/:idx'' path = None \<or> ax_match ax ''/v1/ledger/consistency/:from_size'' path = None"
    using documented_prefix(1) [OF assms, of path] documented_prefix(2) [OF assms, of path]
    by (cases "ax_match ax ''/v1/ledger/proof/:idx'' path";
        cases "ax_match ax ''/v1/ledger/consistency/:from_size'' path") auto
  { assume "ax_match ax ''/v1/ledger/proof/:idx'' path = Some captures"
    with both documented_prefix(1) [OF assms this] show "path \<notin> set literal_paths \<and>
      ax_match ax ''/v1/ledger/consistency/:from_size'' path = None" by (auto simp: literal_paths_def) }
  { assume "ax_match ax ''/v1/ledger/consistency/:from_size'' path = Some captures"
    with both documented_prefix(2) [OF assms this] show "path \<notin> set literal_paths \<and>
      ax_match ax ''/v1/ledger/proof/:idx'' path = None" by (auto simp: literal_paths_def) }
qed

text \<open>What the table does with a path, one equation per route.\<close>

lemma handle_found:
  assumes "find (\<lambda>(pattern, _, _). ax_match ax pattern path \<noteq> None) routes = Some (pattern, m, h)"
  shows "handle_http ext ax px s method path req =
    (if ax_method ax m method then
       (let (r, mt) = call_handler ext ax (px\<lparr>px_cid := as_cid s, px_port := as_port s\<rparr>) (as_metrics s) h
          (the (ax_match ax pattern path)) req in
        (map_option (ax_finish ax method) r, s\<lparr>as_metrics := mt\<rparr>))
     else (Some (ax_method_not_allowed ax m method), s))"
  unfolding handle_http_def assms by simp

lemma asked_call:
  assumes doc: "routes_as_documented ax" and body: "ax_body_error ax (hr_body req) = None" and asks: "asks ax method path c"
  shows "handle_http ext ax px s method path req =
    (case forwards ext ax (px\<lparr>px_cid := as_cid s, px_port := as_port s\<rparr>) (as_metrics s) method req c of
       (r, mt) \<Rightarrow> (r, s\<lparr>as_metrics := mt\<rparr>))"
proof -
  note found = find_documented [OF doc, of path]
  note run = call_handler_def with_index_def with_body_def body forward_calls forwards_def case_prod_beta Let_def
  have get: "reads method \<longleftrightarrow> ax_method ax ''GET'' method" using documented_method(1) [OF doc] by (simp add: reads_def)
  show ?thesis
  proof (cases c)
    case Get_attestation
    with asks found have "find (\<lambda>(pattern, _, _). ax_match ax pattern path \<noteq> None) routes =
        Some (''/v1/attestation'', ''GET'', Forward_attestation)" by simp
    from handle_found [OF this] Get_attestation asks get show ?thesis by (simp add: run)
  next
    case Post_inference
    with asks found have "find (\<lambda>(pattern, _, _). ax_match ax pattern path \<noteq> None) routes =
        Some (''/v1/gateway/inference'', ''POST'', Forward_inference)" by simp
    from handle_found [OF this] Post_inference asks documented_method(2) [OF doc] show ?thesis by (simp add: run)
  next
    case Get_root
    with asks found have "find (\<lambda>(pattern, _, _). ax_match ax pattern path \<noteq> None) routes =
        Some (''/v1/ledger/root'', ''GET'', Forward_ledger_root)" by simp
    from handle_found [OF this] Get_root asks get show ?thesis by (simp add: run)
  next
    case (Get_proof n)
    with asks obtain captures i where m: "ax_match ax ''/v1/ledger/proof/:idx'' path = Some captures"
      "ax_u64 ax captures = Some i" "n = unat i"
      by (auto simp: index_of_def bind_eq_Some_conv)
    with found pattern_paths(1) [OF doc m(1)] have "find (\<lambda>(pattern, _, _). ax_match ax pattern path \<noteq> None) routes =
        Some (''/v1/ledger/proof/:idx'', ''GET'', Forward_path)" by (simp add: literal_paths_def)
    from handle_found [OF this] Get_proof asks get m show ?thesis by (simp add: run)
  next
    case (Get_consistency n)
    with asks obtain captures i where m: "ax_match ax ''/v1/ledger/consistency/:from_size'' path = Some captures"
      "ax_u64 ax captures = Some i" "n = unat i"
      by (auto simp: index_of_def bind_eq_Some_conv)
    with found pattern_paths(2) [OF doc m(1)] have "find (\<lambda>(pattern, _, _). ax_match ax pattern path \<noteq> None) routes =
        Some (''/v1/ledger/consistency/:from_size'', ''GET'', Forward_consistency)" by (simp add: literal_paths_def)
    from handle_found [OF this] Get_consistency asks get m show ?thesis by (simp add: run)
  qed
qed

lemma unasked:
  assumes doc: "routes_as_documented ax" and body: "ax_body_error ax (hr_body req) = None"
    and not_asked: "\<And>c. \<not> asks ax method path c"
  shows "handle_http ext ax px s method path req = (Some (other_reply ax (as_metrics s) method path), s)"
proof -
  note found = find_documented [OF doc, of path]
  have get: "ax_method ax ''GET'' method \<longleftrightarrow> reads method" using documented_method(1) [OF doc] by (simp add: reads_def)
  note run = get documented_method(2) [OF doc] call_handler_def with_index_def metrics_handler_def health_def other_reply_def Let_def
  consider (health) "path = ''/health''" | (metrics) "path = ''/metrics''" | (attestation) "path = ''/v1/attestation''"
    | (inference) "path = ''/v1/gateway/inference''" | (ledger) "path = ''/v1/ledger/root''"
    | (proof_path) captures where "ax_match ax ''/v1/ledger/proof/:idx'' path = Some captures"
    | (consistency) captures where "ax_match ax ''/v1/ledger/consistency/:from_size'' path = Some captures"
    | (none) "path \<notin> set literal_paths" "ax_match ax ''/v1/ledger/proof/:idx'' path = None"
        "ax_match ax ''/v1/ledger/consistency/:from_size'' path = None"
    by (cases "ax_match ax ''/v1/ledger/proof/:idx'' path";
        cases "ax_match ax ''/v1/ledger/consistency/:from_size'' path") (auto simp: literal_paths_def)
  then show ?thesis
  proof cases
    case health
    with found have "find (\<lambda>(pattern, _, _). ax_match ax pattern path \<noteq> None) routes = Some (''/health'', ''GET'', Health)" by simp
    from handle_found [OF this] health show ?thesis by (simp add: run)
  next
    case metrics
    with found have "find (\<lambda>(pattern, _, _). ax_match ax pattern path \<noteq> None) routes = Some (''/metrics'', ''GET'', Metrics_handler)"
      by simp
    from handle_found [OF this] metrics show ?thesis by (simp add: run)
  next
    case attestation
    with found have "find (\<lambda>(pattern, _, _). ax_match ax pattern path \<noteq> None) routes =
        Some (''/v1/attestation'', ''GET'', Forward_attestation)" by simp
    from handle_found [OF this] attestation not_asked [of Get_attestation] show ?thesis by (simp add: run)
  next
    case inference
    with found have "find (\<lambda>(pattern, _, _). ax_match ax pattern path \<noteq> None) routes =
        Some (''/v1/gateway/inference'', ''POST'', Forward_inference)" by simp
    from handle_found [OF this] inference not_asked [of Post_inference] show ?thesis by (simp add: run)
  next
    case ledger
    with found have "find (\<lambda>(pattern, _, _). ax_match ax pattern path \<noteq> None) routes =
        Some (''/v1/ledger/root'', ''GET'', Forward_ledger_root)" by simp
    from handle_found [OF this] ledger not_asked [of Get_root] show ?thesis by (simp add: run)
  next
    case proof_path
    note lits = pattern_paths(1) [OF doc proof_path, unfolded literal_paths_def, simplified]
    with found proof_path have "find (\<lambda>(pattern, _, _). ax_match ax pattern path \<noteq> None) routes =
        Some (''/v1/ledger/proof/:idx'', ''GET'', Forward_path)" by simp
    moreover have "ax_u64 ax captures = None" if "reads method"
      using not_asked [of "Get_proof n" for n] that proof_path by (cases "ax_u64 ax captures") (auto simp: index_of_def)
    ultimately show ?thesis using handle_found [of ax path] proof_path lits by (simp add: run)
  next
    case consistency
    note lits = pattern_paths(2) [OF doc consistency, unfolded literal_paths_def, simplified]
    with found consistency have "find (\<lambda>(pattern, _, _). ax_match ax pattern path \<noteq> None) routes =
        Some (''/v1/ledger/consistency/:from_size'', ''GET'', Forward_consistency)" by simp
    moreover have "ax_u64 ax captures = None" if "reads method"
      using not_asked [of "Get_consistency n" for n] that consistency by (cases "ax_u64 ax captures") (auto simp: index_of_def)
    ultimately show ?thesis using handle_found [of ax path] consistency lits by (simp add: run)
  next
    case none
    with found have "find (\<lambda>(pattern, _, _). ax_match ax pattern path \<noteq> None) routes = None" by (simp add: literal_paths_def)
    with none show ?thesis unfolding handle_http_def by (simp add: other_reply_def literal_paths_def)
  qed
qed

lemma asked_index: "asks ax method path c \<Longrightarrow> call_index c < 2 ^ 64"
proof (cases c)
  have "map_option unat (x :: u64 option) = Some n \<Longrightarrow> n < 2 ^ 64" for x n
    using unsigned_less [where ?'a = nat and ?'b = 64] by auto
  then show "asks ax method path c \<Longrightarrow> call_index c < 2 ^ 64" if "c = Get_proof n" for n using that by (auto simp: index_of_def)
  show "asks ax method path c \<Longrightarrow> call_index c < 2 ^ 64" if "c = Get_consistency n" for n
    using that \<open>\<And>x n. map_option unat (x :: u64 option) = Some n \<Longrightarrow> n < 2 ^ 64\<close> by (auto simp: index_of_def)
qed simp_all

lemma own_call_asked:
  assumes "routes_as_documented ax" and "call_index c < 2 ^ 64"
  shows "asks ax (call_method c) (call_path c) c"
  using assms(2) documented_number [OF assms(1)] documented_u64 [OF assms(1)]
  by (cases c) (simp_all add: reads_def index_of_def unat_of_nat)

section \<open>A concrete router\<close>

text \<open>It adds the length of the body to every response, and drops the body for \<open>HEAD\<close>.\<close>

fun demo_match :: "string \<Rightarrow> string \<Rightarrow> string list option" where
  "demo_match [] path = (if path = [] then Some [] else None)"
| "demo_match (p # pattern) path =
     (if p = CHR '':'' then (if CHR ''/'' \<in> set pattern then None else Some [path])
      else (case path of [] \<Rightarrow> None | c # path \<Rightarrow> if c = p then demo_match pattern path else None))"

lemma demo_match_literal:
  "CHR '':'' \<notin> set pattern \<Longrightarrow> demo_match pattern path = (if path = pattern then Some [] else None)"
  by (induction pattern path rule: demo_match.induct) (auto split: list.split)

lemma demo_match_prefix:
  "CHR '':'' \<notin> set pre \<Longrightarrow> demo_match (pre @ CHR '':'' # name) path = Some captures \<Longrightarrow> \<exists>segment. path = pre @ segment"
  by (induction pre arbitrary: path) (auto split: list.splits if_splits)

lemma demo_match_capture:
  "CHR '':'' \<notin> set pre \<Longrightarrow> CHR ''/'' \<notin> set name \<Longrightarrow> demo_match (pre @ CHR '':'' # name) (pre @ seg) = Some [seg]"
  by (induction pre) auto

definition demo_router :: axum_crate where
  "demo_router = \<lparr>ax_match = demo_match, ax_method = (\<lambda>m m'. m' = m \<or> m = ''GET'' \<and> m' = ''HEAD''),
     ax_u64 = (\<lambda>segs. Option.bind (parse_usize (concat segs)) (\<lambda>n. Some (word_of_nat n))),
     ax_bad_path = (\<lambda>_. \<lparr>h_status = 400, h_headers = [], h_body = []\<rparr>), ax_body_error = (\<lambda>_. None),
     ax_not_found = (\<lambda>_. \<lparr>h_status = 404, h_headers = [], h_body = []\<rparr>),
     ax_method_not_allowed = (\<lambda>m _. \<lparr>h_status = 405, h_headers = [(''allow'', m)], h_body = []\<rparr>),
     ax_text = (\<lambda>st t. \<lparr>h_status = st, h_headers = [], h_body = as_bytes t\<rparr>),
     ax_json = (\<lambda>st v. \<lparr>h_status = st, h_headers = [], h_body = []\<rparr>),
     ax_finish = (\<lambda>m r. r\<lparr>h_headers := (''content-length'', show_nat (length (h_body r))) # h_headers r,
       h_body := if m = ''HEAD'' then [] else h_body r\<rparr>),
     prom_text = (\<lambda>_. [])\<rparr>"

lemma demo_router_documented: "routes_as_documented demo_router"
proof -
  have "parameter_pattern demo_router ''/v1/ledger/proof/'' ''/v1/ledger/proof/:idx''"
    using demo_match_prefix [of "''/v1/ledger/proof/''" "''idx''"] demo_match_capture [of "''/v1/ledger/proof/''" "''idx''"]
    by (simp add: parameter_pattern_def demo_router_def)
  moreover have "parameter_pattern demo_router ''/v1/ledger/consistency/'' ''/v1/ledger/consistency/:from_size''"
    using demo_match_prefix [of "''/v1/ledger/consistency/''" "''from_size''"]
      demo_match_capture [of "''/v1/ledger/consistency/''" "''from_size''"]
    by (simp add: parameter_pattern_def demo_router_def)
  moreover have "adds_headers demo_router" by (auto simp: adds_headers_def demo_router_def)
  moreover have "ax_match demo_router pattern path = (if path = pattern then Some [] else None)"
    if "pattern \<in> set literal_paths" for pattern path
    using demo_match_literal [of pattern path] that by (auto simp: literal_paths_def demo_router_def)
  moreover have "ax_u64 demo_router [show_nat n] = Some (word_of_nat n)" if "n < 2 ^ 64" for n
    using parse_usize_show [of n] that by (simp add: demo_router_def)
  moreover have "ax_method demo_router ''GET'' m \<longleftrightarrow> m = ''GET'' \<or> m = ''HEAD''" "ax_method demo_router ''POST'' m \<longleftrightarrow> m = ''POST''" for m
    by (simp_all add: demo_router_def)
  ultimately show ?thesis unfolding routes_as_documented_def by blast
qed

definition demo_app :: app_state where
  "demo_app = main_state (parse_args \<lparr>cli_listen = None, cli_cid = None, cli_port = None, cli_timeout_ms = None\<rparr>)"

section \<open>Properties\<close>

text \<open>C38. The two route tables agree. A method and path that ask for one of the five calls are forwarded as
  exactly that call, with the index the path names, and the enclave answers the envelope with that call's own
  answer, for the request's body and tenant; any other request is answered by the proxy itself (its two
  own pages, a rejected index, a wrong method, an unknown path) and nothing is forwarded or counted. Every
  call whose index fits 64 bits is asked for by its own method and path.\<close>

theorem routers_agree:
  assumes "routes_as_documented ax" and "ax_body_error ax (hr_body req) = None"
  shows "(\<forall>c. asks ax method path c \<longrightarrow>
      handle_http ext ax px s method path req =
        (case forwards ext ax (px\<lparr>px_cid := as_cid s, px_port := as_port s\<rparr>) (as_metrics s) method req c of
           (r, mt) \<Rightarrow> (r, s\<lparr>as_metrics := mt\<rparr>)) \<and>
      (let env = call_envelope ext px c req in
         dispatch ext io st env = answer_call ext io st (request_body ext env) (tenant_of env) c)) \<and>
    ((\<forall>c. \<not> asks ax method path c) \<longrightarrow>
      handle_http ext ax px s method path req = (Some (other_reply ax (as_metrics s) method path), s)) \<and>
    (\<forall>c. call_index c < 2 ^ 64 \<longrightarrow> asks ax (call_method c) (call_path c) c)"
proof -
  have "dispatch ext io st (call_envelope ext px c req) = answer_call ext io st (request_body ext (call_envelope ext px c req))
      (tenant_of (call_envelope ext px c req)) c" if "asks ax method path c" for c
    using dispatch_call [OF _ _ asked_index [OF that], of "call_envelope ext px c req" ext io st]
    by (simp add: proxy_envelope_def request_body_def)
  then show ?thesis
    using asked_call [OF assms] unasked [OF assms] own_call_asked [OF assms(1)] by (simp add: Let_def)
qed

theorem routers_agree_witness:
  "handle_http demo_wire demo_router demo_proxy demo_app ''HEAD'' (''/v1/ledger/proof/'' @ show_nat 7) demo_http =
     (case forwards demo_wire demo_router (demo_proxy\<lparr>px_cid := as_cid demo_app, px_port := as_port demo_app\<rparr>)
        (as_metrics demo_app) ''HEAD'' demo_http (Get_proof 7) of (r, mt) \<Rightarrow> (r, demo_app\<lparr>as_metrics := mt\<rparr>)) \<and>
   handle_http demo_wire demo_router demo_proxy demo_app ''DELETE'' ''/v1/ledger/root'' demo_http =
     (Some \<lparr>h_status = 405, h_headers = [(''allow'', ''GET'')], h_body = []\<rparr>, demo_app) \<and>
   asks demo_router ''GET'' ''/v1/ledger/root'' Get_root"
proof (intro conjI)
  have body: "ax_body_error demo_router (hr_body demo_http) = None" by (simp add: demo_router_def)
  note agree = routers_agree [OF demo_router_documented body]
  have seven: "asks demo_router ''HEAD'' (''/v1/ledger/proof/'' @ show_nat 7) (Get_proof 7)"
    using documented_number(1) [OF demo_router_documented, of 7] documented_u64 [OF demo_router_documented, of 7]
    by (simp add: reads_def index_of_def)
  show "handle_http demo_wire demo_router demo_proxy demo_app ''HEAD'' (''/v1/ledger/proof/'' @ show_nat 7) demo_http =
     (case forwards demo_wire demo_router (demo_proxy\<lparr>px_cid := as_cid demo_app, px_port := as_port demo_app\<rparr>)
        (as_metrics demo_app) ''HEAD'' demo_http (Get_proof 7) of (r, mt) \<Rightarrow> (r, demo_app\<lparr>as_metrics := mt\<rparr>))"
    by (rule agree [THEN conjunct1, rule_format, OF seven, THEN conjunct1])
  have "\<forall>c. \<not> asks demo_router ''DELETE'' ''/v1/ledger/root'' c"
  proof
    fix c show "\<not> asks demo_router ''DELETE'' ''/v1/ledger/root'' c" by (cases c) (simp_all add: reads_def)
  qed
  from agree [THEN conjunct2, THEN conjunct1, THEN mp, OF this]
  show "handle_http demo_wire demo_router demo_proxy demo_app ''DELETE'' ''/v1/ledger/root'' demo_http =
     (Some \<lparr>h_status = 405, h_headers = [(''allow'', ''GET'')], h_body = []\<rparr>, demo_app)"
    by (simp add: other_reply_def) (simp add: demo_router_def)
  show "asks demo_router ''GET'' ''/v1/ledger/root'' Get_root" by (simp add: reads_def)
qed

end
