(* ===== verification/Gateway_Props.thy ===== *)
theory Gateway_Props
  imports Gateway_Routes Enclave_Client
begin

text \<open>
  The whole gateway: an HTTP request through the proxy's routes, the vsock connection and the enclave's
  dispatcher. Every call of the protocol returns over HTTP what the enclave's handler answers, ledger queries
  return proofs that verify, and a client that follows the protocol is served.
\<close>

section \<open>Every call from end to end\<close>

text \<open>C36. The gateway refines the interface of the enclave: over a healthy connection each of the five calls,
  made with its method and path at the proxy, returns the status, the JSON bytes and the content type of the answer that
  \<open>answer_call\<close> specifies for the HTTP request's own body and tenant; the enclave is left in the state of
  that answer, which differs from the earlier one only for an inference; and the proxy counts one
  request with one latency and no error.\<close>

theorem http_answers_call:
  assumes "http_ready ext ax px io st c req hdr"
  shows "\<exists>status v body headers st'.
    answer_call ext io st (hr_body req) (tenant_of (call_envelope ext px c req)) c = (Some (json_resp ext status v), st') \<and>
    json_to_vec ext v = Some body \<and> hdr \<in> set headers \<and>
    handle_http ext ax px s (call_method c) (call_path c) req =
      (Some \<lparr>h_status = status, h_headers = headers, h_body = body\<rparr>, s\<lparr>as_metrics := counted px (as_metrics s)\<rparr>) \<and>
    enclave_after ext px io st c req = st' \<and> (st' = st \<or> c = Post_inference)"
proof -
  note r = assms [unfolded http_ready_def]
  obtain status v st' where d: "dispatch ext io st (call_envelope ext px c req) = (Some (json_resp ext status v), st')"
    "status \<in> {200, 400, 404, 500}" "st' = st \<or> call_method c = ''POST''"
    using dispatch_json [of ext io st "call_envelope ext px c req"] r
    by (fastforce simp: json_answer_def proxy_envelope_def)
  from http_reply [OF assms d(1,2), of s] obtain body headers where
    "json_to_vec ext v = Some body" "hdr \<in> set headers"
    "handle_http ext ax px s (call_method c) (call_path c) req =
      (Some \<lparr>h_status = status, h_headers = headers, h_body = body\<rparr>, s\<lparr>as_metrics := counted px (as_metrics s)\<rparr>)"
    "enclave_after ext px io st c req = st'" by blast
  moreover have "answer_call ext io st (hr_body req) (tenant_of (call_envelope ext px c req)) c =
      (Some (json_resp ext status v), st')"
    using dispatch_call [of "call_envelope ext px c req" c ext io st] r d(1) by (simp add: proxy_envelope_def)
  moreover have "st' = st \<or> c = Post_inference" using d(3) by (cases c) auto
  ultimately show ?thesis by blast
qed

section \<open>Ledger queries\<close>

text \<open>C37. A ledger query over HTTP, from end to end: \<open>GET /v1/ledger/proof/<n>\<close> at the proxy of a healthy
  enclave returns status 200 and the JSON document of leaf \<open>n\<close>, an audit path and a signed head, and
  \<open>verify_inclusion\<close> accepts that path for that leaf under that head; when the ledger has no leaf \<open>n\<close>
  it returns 404. The call counts once in the proxy's metrics and changes nothing else.\<close>

theorem http_ledger_proof:
  assumes "http_ready ext ax px io st (Get_proof n) req hdr"
  shows "\<exists>status body headers v. handle_http ext ax px s ''GET'' (''/v1/ledger/proof/'' @ show_nat n) req =
      (Some \<lparr>h_status = status, h_headers = headers, h_body = body\<rparr>, s\<lparr>as_metrics := counted px (as_metrics s)\<rparr>) \<and>
    json_to_vec ext v = Some body \<and> hdr \<in> set headers \<and> enclave_after ext px io st (Get_proof n) req = st \<and>
    (if n < log_size (ledger st)
     then \<exists>leaf path cp. status = 200 \<and> v = receipt_value ext n leaf path cp \<and>
       leaf_at (ledger st) n = Some leaf \<and> checkpoint_signed ext (proof_sk st) cp \<and>
       cp_size cp = log_size (ledger st) \<and> cp_root_hex cp = hex_encode ext (root (sha256 ext) (ledger st)) \<and>
       verify_inclusion (sha256 ext) leaf n (cp_size cp) path (root (sha256 ext) (ledger st))
     else status = 404 \<and> v = obj ext [(''error'', JString ''ledger_index_not_found'')])"
proof -
  let ?env = "call_envelope ext px (Get_proof n) req"
  note r = assms [unfolded http_ready_def]
  have "env_method ?env = ''GET''" "env_path ?env = ''/v1/ledger/proof/'' @ show_nat n"
    by (simp_all add: proxy_envelope_def)
  then have answer: "if n < log_size (ledger st)
    then \<exists>leaf path cp. dispatch ext io st ?env = (Some (json_resp ext 200 (receipt_value ext n leaf path cp)), st) \<and>
      leaf_at (ledger st) n = Some leaf \<and> checkpoint_signed ext (proof_sk st) cp \<and>
      cp_size cp = log_size (ledger st) \<and> cp_root_hex cp = hex_encode ext (root (sha256 ext) (ledger st)) \<and>
      verify_inclusion (sha256 ext) leaf n (cp_size cp) path (root (sha256 ext) (ledger st))
    else dispatch ext io st ?env = (Some (error_resp ext 404 ''ledger_index_not_found''), st)"
    using r by (intro ledger_proof_answer) auto
  show ?thesis
  proof (cases "n < log_size (ledger st)")
    case True
    with answer obtain leaf path cp where a:
      "dispatch ext io st ?env = (Some (json_resp ext 200 (receipt_value ext n leaf path cp)), st)"
      "leaf_at (ledger st) n = Some leaf" "checkpoint_signed ext (proof_sk st) cp"
      "cp_size cp = log_size (ledger st)" "cp_root_hex cp = hex_encode ext (root (sha256 ext) (ledger st))"
      "verify_inclusion (sha256 ext) leaf n (cp_size cp) path (root (sha256 ext) (ledger st))" by auto
    from http_reply [OF assms a(1), of s] obtain body headers where
      "handle_http ext ax px s ''GET'' (''/v1/ledger/proof/'' @ show_nat n) req =
        (Some \<lparr>h_status = 200, h_headers = headers, h_body = body\<rparr>, s\<lparr>as_metrics := counted px (as_metrics s)\<rparr>)"
      "json_to_vec ext (receipt_value ext n leaf path cp) = Some body" "hdr \<in> set headers"
      "enclave_after ext px io st (Get_proof n) req = st" by auto
    with a(2-6) show ?thesis
      unfolding if_P [OF True]
      by - (rule exI [of _ 200], rule exI [of _ body], rule exI [of _ headers],
        rule exI [of _ "receipt_value ext n leaf path cp"],
        (rule conjI, assumption)+, rule exI [of _ leaf], rule exI [of _ path], rule exI [of _ cp], simp)
  next
    case False
    with answer have "dispatch ext io st ?env =
        (Some (json_resp ext 404 (obj ext [(''error'', JString ''ledger_index_not_found'')])), st)"
      by (simp add: error_resp_def error_value_def)
    from http_reply [OF assms this, of s] obtain body headers where
      "handle_http ext ax px s ''GET'' (''/v1/ledger/proof/'' @ show_nat n) req =
        (Some \<lparr>h_status = 404, h_headers = headers, h_body = body\<rparr>, s\<lparr>as_metrics := counted px (as_metrics s)\<rparr>)"
      "json_to_vec ext (obj ext [(''error'', JString ''ledger_index_not_found'')]) = Some body" "hdr \<in> set headers"
      "enclave_after ext px io st (Get_proof n) req = st" by auto
    with False show ?thesis unfolding if_not_P [OF False] by blast
  qed
qed

text \<open>C18. Two heads of the ledger over HTTP: \<open>GET /v1/ledger/consistency/<size>\<close> at the proxy returns status 200
  and two signed heads, of the size asked for and of the present ledger, with a path that
  \<open>verify_consistency\<close> accepts for them; a size beyond the ledger is answered with 400. The ledger is left
  as it is.\<close>

theorem http_ledger_consistency:
  assumes "http_ready ext ax px io st (Get_consistency m) req hdr"
  shows "\<exists>status body headers v. handle_http ext ax px s ''GET'' (''/v1/ledger/consistency/'' @ show_nat m) req =
      (Some \<lparr>h_status = status, h_headers = headers, h_body = body\<rparr>, s\<lparr>as_metrics := counted px (as_metrics s)\<rparr>) \<and>
    json_to_vec ext v = Some body \<and> hdr \<in> set headers \<and> enclave_after ext px io st (Get_consistency m) req = st \<and>
    (if m \<le> log_size (ledger st)
     then \<exists>old path from_cp to_cp. status = 200 \<and> v = consistency_value ext from_cp to_cp path \<and>
       root_at (sha256 ext) (ledger st) m = Some old \<and>
       checkpoint_signed ext (proof_sk st) from_cp \<and> checkpoint_signed ext (proof_sk st) to_cp \<and>
       cp_size from_cp = m \<and> cp_root_hex from_cp = hex_encode ext old \<and>
       cp_size to_cp = log_size (ledger st) \<and> cp_root_hex to_cp = hex_encode ext (root (sha256 ext) (ledger st)) \<and>
       verify_consistency (sha256 ext) m old (cp_size to_cp) (root (sha256 ext) (ledger st)) path
     else status = 400 \<and> v = obj ext [(''error'', JString ''invalid_tree_size'')])"
proof -
  let ?env = "call_envelope ext px (Get_consistency m) req"
  note r = assms [unfolded http_ready_def]
  have env: "env_method ?env = ''GET''" "env_path ?env = ''/v1/ledger/consistency/'' @ show_nat m" "m < 2 ^ 64"
    "healthy ext io" using r by (simp_all add: proxy_envelope_def)
  note answer = ledger_consistency_answer [OF env(4,1-3), of st]
  show ?thesis
  proof (cases "m \<le> log_size (ledger st)")
    case True
    with answer obtain old path from_cp to_cp where a:
      "dispatch ext io st ?env = (Some (json_resp ext 200 (consistency_value ext from_cp to_cp path)), st)"
      "root_at (sha256 ext) (ledger st) m = Some old"
      "checkpoint_signed ext (proof_sk st) from_cp" "checkpoint_signed ext (proof_sk st) to_cp"
      "cp_size from_cp = m" "cp_root_hex from_cp = hex_encode ext old"
      "cp_size to_cp = log_size (ledger st)" "cp_root_hex to_cp = hex_encode ext (root (sha256 ext) (ledger st))"
      "verify_consistency (sha256 ext) m old (cp_size to_cp) (root (sha256 ext) (ledger st)) path" by auto
    from http_reply [OF assms a(1), of s] obtain body headers where
      "handle_http ext ax px s ''GET'' (''/v1/ledger/consistency/'' @ show_nat m) req =
        (Some \<lparr>h_status = 200, h_headers = headers, h_body = body\<rparr>, s\<lparr>as_metrics := counted px (as_metrics s)\<rparr>)"
      "json_to_vec ext (consistency_value ext from_cp to_cp path) = Some body" "hdr \<in> set headers"
      "enclave_after ext px io st (Get_consistency m) req = st" by auto
    with a(2-9) show ?thesis
      unfolding if_P [OF True]
      by - (rule exI [of _ 200], rule exI [of _ body], rule exI [of _ headers],
        rule exI [of _ "consistency_value ext from_cp to_cp path"],
        (rule conjI, assumption)+, rule exI [of _ old], rule exI [of _ path], rule exI [of _ from_cp],
        rule exI [of _ to_cp], simp)
  next
    case False
    with answer have "dispatch ext io st ?env =
        (Some (json_resp ext 400 (obj ext [(''error'', JString ''invalid_tree_size'')])), st)"
      by (simp add: error_resp_def error_value_def)
    from http_reply [OF assms this, of s] obtain body headers where
      "handle_http ext ax px s ''GET'' (''/v1/ledger/consistency/'' @ show_nat m) req =
        (Some \<lparr>h_status = 400, h_headers = headers, h_body = body\<rparr>, s\<lparr>as_metrics := counted px (as_metrics s)\<rparr>)"
      "json_to_vec ext (obj ext [(''error'', JString ''invalid_tree_size'')]) = Some body" "hdr \<in> set headers"
      "enclave_after ext px io st (Get_consistency m) req = st" by auto
    with False show ?thesis unfolding if_not_P [OF False] by blast
  qed
qed

section \<open>An inference\<close>

text \<open>C15. A client that follows the protocol is served over HTTP: it posts its request to the proxy of a
  healthy enclave and gets status 200 and a JSON document with the model's response, a proof that states
  success, the tenant of its HTTP headers, its own commitment and the digest of that response, and a receipt
  that verifies; the enclave's ledger has grown by exactly that proof. Hexadecimal is assumed to decode
  what it encoded.\<close>

theorem http_inference:
  assumes "http_ready ext ax px io st Post_inference req hdr" and "\<And>b. hex_decode ext (hex_encode ext b) = Some b"
    and "follows_protocol ext st (hr_body req) client_sk nonce plaintext ciphertext salt context processor"
  shows "\<exists>body headers v. handle_http ext ax px s ''POST'' ''/v1/gateway/inference'' req =
      (Some \<lparr>h_status = 200, h_headers = headers, h_body = body\<rparr>, s\<lparr>as_metrics := counted px (as_metrics s)\<rparr>) \<and>
    json_to_vec ext v = Some body \<and> hdr \<in> set headers \<and>
    served_answer ext st (tenant_of (call_envelope ext px Post_inference req)) (plaintext @ salt @ as_bytes context) v
      (enclave_after ext px io st Post_inference req)"
proof -
  let ?env = "call_envelope ext px Post_inference req"
  note r = assms(1) [unfolded http_ready_def]
  obtain v st' where run: "process_and_delete ext io st (hr_body req) (tenant_of ?env) = (Some (Inr v), st')"
    and served: "served_answer ext st (tenant_of ?env) (plaintext @ salt @ as_bytes context) v st'"
    using honest_client_served [OF _ _ assms(2,3), of io "tenant_of ?env"] r by blast
  have "dispatch ext io st ?env = (Some (json_resp ext 200 v), st')"
    using dispatch_call [of ?env Post_inference ext io st] r run by (simp add: proxy_envelope_def)
  from http_reply [OF assms(1) this, of s] served show ?thesis by auto
qed

section \<open>A concrete gateway\<close>

text \<open>A wire that carries one given request and the enclave's answer to it.\<close>

definition linked :: "externals \<Rightarrow> vsock_envelope \<Rightarrow> vsock_response \<Rightarrow> externals" where
  "linked ext env resp = ext\<lparr>parse_envelope := \<lambda>_. Some env, parse_response := \<lambda>_. Some resp\<rparr>"

lemma linked_fields [simp]:
  "sha256 (linked ext env resp) = sha256 ext" "hex_encode (linked ext env resp) = hex_encode ext"
  "hex_decode (linked ext env resp) = hex_decode ext" "b64_encode (linked ext env resp) = b64_encode ext"
  "b64_decode (linked ext env resp) = b64_decode ext" "map_insert (linked ext env resp) = map_insert ext"
  "json_to_vec (linked ext env resp) = json_to_vec ext" "json_error (linked ext env resp) = json_error ext"
  "parse_request (linked ext env resp) = parse_request ext" "x25519_public (linked ext env resp) = x25519_public ext"
  "x25519_dh (linked ext env resp) = x25519_dh ext" "hkdf_expand (linked ext env resp) = hkdf_expand ext"
  "aead_key_ok (linked ext env resp) = aead_key_ok ext" "aead_decrypt (linked ext env resp) = aead_decrypt ext"
  "ed25519_public (linked ext env resp) = ed25519_public ext" "ed25519_sign (linked ext env resp) = ed25519_sign ext"
  "expected_pcr0 (linked ext env resp) = expected_pcr0 ext" "nitro_debug (linked ext env resp) = nitro_debug ext"
  "anyhow_debug (linked ext env resp) = anyhow_debug ext"
  by (simp_all add: linked_def)

lemma linked_dispatch: "dispatch (linked ext env resp) io st e = dispatch ext io st e"
  unfolding dispatch_def request_body_def answer_query_def inference_answer_def json_resp_def error_value_def publish_attestation_def binding_value_def obj_def json_object_def
    try_canonical_json_def process_and_delete_def decide_def open_channel_def check_commitment_def decide_plaintext_def
    call_upstream_def policy_hash_def policy_to_value_def fail_def log_failure_def log_success_def take_stamp_def random_hex_def failure_statement_def
    success_statement_def policy_decision_value_def zeroization_value_def emit_proof_def sign_proof_def
    append_proof_def proof_to_value_def statement_to_value_def receipt_value_def encode_hashes_def checkpoint_to_value_def
    sign_checkpoint_def checkpoint_statement_to_value_def failure_value_def success_value_def timings_value_def
    ledger_root_def ledger_proof_def ledger_consistency_def consistency_value_def linked_fields
  by (rule refl)


definition wired :: "externals \<Rightarrow> enclave_state \<Rightarrow> proxy_io \<Rightarrow> api_call \<Rightarrow> http_request \<Rightarrow> externals" where
  "wired ext st px c req =
     (let env = call_envelope ext px c req in linked ext env (the (fst (dispatch ext demo_io st env))))"

definition demo_px :: "externals \<Rightarrow> enclave_state \<Rightarrow> proxy_io" where
  "demo_px ext st = demo_proxy\<lparr>px_vsock := enclave_vsock ext demo_io st\<rparr>"

lemma wired_ready:
  assumes "healthy ext demo_io" and "\<And>b. b64_decode ext (b64_encode ext b) = Some b" and "object_map (map_insert ext)"
    and "\<And>v. json_to_vec ext v = Some [0x7B, 0x7D]" and "call_index c < 2 ^ 64" and "ext' = wired ext st demo_proxy c req"
  shows "http_ready ext' demo_router (demo_px ext' st) demo_io st c req (''content-type'', ''application/json'')"
proof -
  let ?env = "call_envelope ext demo_proxy c req"
  obtain resp st' where resp: "dispatch ext demo_io st ?env = (Some resp, st')" using dispatch_json [OF assms(1)] by blast
  have ext': "ext' = linked ext ?env resp" by (simp add: assms(6) wired_def resp Let_def)
  have env: "call_envelope ext' (demo_px ext' st) c req = ?env"
    unfolding ext' proxy_envelope_def header_map_def linked_fields by (simp add: demo_px_def)
  have "connected ext' (demo_px ext' st) demo_io st c req"
    unfolding connected_def env
    by (simp add: ext' linked_dispatch resp demo_px_def request_crosses_def response_crosses_def assms(4) max_frame_def)
      (simp add: linked_def)
  moreover have "healthy ext' demo_io" using assms(1) by (simp add: ext' healthy_def)
  ultimately show ?thesis
    using demo_router_documented assms(2,3,5)
    by (simp add: http_ready_def ext' demo_px_def demo_proxy_def demo_router_def)
qed

text \<open>The examples: a proof and a consistency query on a ledger of one leaf, an attestation, an inference.\<close>

definition demo_logged :: enclave_state where
  "demo_logged = demo_state\<lparr>ledger := \<lparr>leaves = [replicate 32 5]\<rparr>\<rparr>"

definition proof_net :: externals where
  "proof_net = wired demo_gateway demo_logged demo_proxy (Get_proof 0) demo_http"

definition heads_net :: externals where
  "heads_net = wired demo_gateway demo_logged demo_proxy (Get_consistency 1) demo_http"

definition attest_net :: externals where
  "attest_net = wired demo_gateway demo_state demo_proxy Get_attestation demo_http"

definition demo_upload :: http_request where
  "demo_upload = \<lparr>hr_headers = [], hr_body = [1]\<rparr>"

definition post_net :: externals where
  "post_net = wired demo_channel demo_state demo_proxy Post_inference demo_upload"

lemma gateway_ready:
  "call_index c < 2 ^ 64 \<Longrightarrow> ext' = wired demo_gateway st demo_proxy c req \<Longrightarrow>
   http_ready ext' demo_router (demo_px ext' st) demo_io st c req (''content-type'', ''application/json'')"
  by (rule wired_ready [OF demo_healthy]) (simp_all add: demo_gateway_def demo_ext_def as_bytes_copy)

lemma demo_logged_size: "log_size (ledger demo_logged) = 1"
  by (simp add: demo_logged_def log_size_def)

theorem http_answers_call_witness:
  "\<exists>status v body headers st'.
    answer_call attest_net demo_io demo_state []
      (tenant_of (call_envelope attest_net (demo_px attest_net demo_state) Get_attestation demo_http)) Get_attestation =
      (Some (json_resp attest_net status v), st') \<and>
    json_to_vec attest_net v = Some body \<and> (''content-type'', ''application/json'') \<in> set headers \<and>
    handle_http attest_net demo_router (demo_px attest_net demo_state) demo_app ''GET'' ''/v1/attestation'' demo_http =
      (Some \<lparr>h_status = status, h_headers = headers, h_body = body\<rparr>,
       demo_app\<lparr>as_metrics := counted (demo_px attest_net demo_state) (as_metrics demo_app)\<rparr>) \<and>
    enclave_after attest_net (demo_px attest_net demo_state) demo_io demo_state Get_attestation demo_http = st' \<and>
    st' = demo_state"
  using http_answers_call [OF gateway_ready [OF _ attest_net_def], of demo_app]
  by (simp add: demo_http_def)

theorem http_ledger_proof_witness:
  "\<exists>body headers leaf path cp. handle_http proof_net demo_router (demo_px proof_net demo_logged) demo_app ''GET''
      (''/v1/ledger/proof/'' @ show_nat 0) demo_http =
      (Some \<lparr>h_status = 200, h_headers = headers, h_body = body\<rparr>,
       demo_app\<lparr>as_metrics := counted (demo_px proof_net demo_logged) (as_metrics demo_app)\<rparr>) \<and>
    json_to_vec proof_net (receipt_value proof_net 0 leaf path cp) = Some body \<and>
    (''content-type'', ''application/json'') \<in> set headers \<and>
    enclave_after proof_net (demo_px proof_net demo_logged) demo_io demo_logged (Get_proof 0) demo_http = demo_logged \<and>
    leaf_at (ledger demo_logged) 0 = Some leaf \<and> checkpoint_signed proof_net (proof_sk demo_logged) cp \<and>
    verify_inclusion (sha256 proof_net) leaf 0 (cp_size cp) path (root (sha256 proof_net) (ledger demo_logged))"
proof -
  have "(0 :: nat) < 1" "call_index (Get_proof 0) < 2 ^ 64" by simp_all
  from http_ledger_proof [OF gateway_ready [OF this(2) proof_net_def], of demo_app, unfolded demo_logged_size if_P [OF this(1)]]
  show ?thesis by blast
qed

theorem http_ledger_consistency_witness:
  "\<exists>body headers old path from_cp to_cp. handle_http heads_net demo_router (demo_px heads_net demo_logged) demo_app ''GET''
      (''/v1/ledger/consistency/'' @ show_nat 1) demo_http =
      (Some \<lparr>h_status = 200, h_headers = headers, h_body = body\<rparr>,
       demo_app\<lparr>as_metrics := counted (demo_px heads_net demo_logged) (as_metrics demo_app)\<rparr>) \<and>
    json_to_vec heads_net (consistency_value heads_net from_cp to_cp path) = Some body \<and>
    (''content-type'', ''application/json'') \<in> set headers \<and>
    root_at (sha256 heads_net) (ledger demo_logged) 1 = Some old \<and>
    checkpoint_signed heads_net (proof_sk demo_logged) from_cp \<and> checkpoint_signed heads_net (proof_sk demo_logged) to_cp \<and>
    verify_consistency (sha256 heads_net) 1 old (cp_size to_cp) (root (sha256 heads_net) (ledger demo_logged)) path"
proof -
  have "(1 :: nat) \<le> 1" "call_index (Get_consistency 1) < 2 ^ 64" by simp_all
  from http_ledger_consistency [OF gateway_ready [OF this(2) heads_net_def], of demo_app,
      unfolded demo_logged_size if_P [OF this(1)]]
  show ?thesis unfolding demo_logged_size by blast
qed

lemma post_ready:
  "http_ready post_net demo_router (demo_px post_net demo_state) demo_io demo_state Post_inference demo_upload
     (''content-type'', ''application/json'')"
  by (rule wired_ready [OF demo_channel_healthy _ _ _ _ post_net_def])
    (simp_all add: demo_channel_def demo_ext_def as_bytes_copy)

lemma post_follows:
  "follows_protocol post_net demo_state (hr_body demo_upload) (replicate 32 2) (replicate 24 3) (as_bytes ''hello'')
     (as_bytes ''hello'') [1] ''c'' None"
  using demo_follows
  unfolding follows_protocol_def sealed_for_def honest_request_def post_net_def wired_def Let_def linked_fields
  by (simp add: demo_upload_def)

theorem http_inference_witness:
  "\<exists>body headers v. handle_http post_net demo_router (demo_px post_net demo_state) demo_app ''POST'' ''/v1/gateway/inference'' demo_upload =
      (Some \<lparr>h_status = 200, h_headers = headers, h_body = body\<rparr>,
       demo_app\<lparr>as_metrics := counted (demo_px post_net demo_state) (as_metrics demo_app)\<rparr>) \<and>
    json_to_vec post_net v = Some body \<and> (''content-type'', ''application/json'') \<in> set headers \<and>
    served_answer post_net demo_state (tenant_of (call_envelope post_net (demo_px post_net demo_state) Post_inference demo_upload))
      (as_bytes ''hello'' @ [1] @ as_bytes ''c'') v
      (enclave_after post_net (demo_px post_net demo_state) demo_io demo_state Post_inference demo_upload)"
  by (rule http_inference [OF post_ready _ post_follows])
    (simp add: post_net_def wired_def Let_def demo_channel_def demo_ext_def as_bytes_copy)

end
