(* ===== verification/Spec2Isabelle.thy ===== *)
theory Spec2Isabelle
  imports Transparency_Props Policy_Props Policy_Reference Enclave_Concurrent Enclave_Client Attested_Channel
    Aws_Roots Metering_Props Gateway_Props
begin

text \<open>
  PZDR: a privacy gateway in an AWS Nitro Enclave, as a shallow embedding.

  The program. A client verifies the enclave's attestation, encrypts a request under the attested channel
  key and posts it to the parent proxy. The proxy wraps the HTTP request in a JSON envelope, sends it as
  one length-prefixed frame over vsock and turns the answering frame back into an HTTP response. The
  enclave decrypts, checks the client's commitment, evaluates the policy, calls the model, and whatever
  the outcome signs a proof, appends it to a Merkle log and returns it with a receipt. Two routes serve
  inclusion and consistency proofs of that log. A separate library builds metering records for billing.

  Theories and code. Definitions carry the names of the functions and types they model.

  \<^item> \<open>PZDR_Prelude\<close>: bytes, machine words, the sum type of results with \<open>rbind\<close>, \<open>ensure\<close> and \<open>ok_or\<close>, the
    collection \<open>result_iff\<close> that takes a chain of fallible steps apart.
  \<^item> \<open>Transparency\<close> (\<open>services/pzdr-enclave/src/transparency.rs\<close>): the RFC 6962 log, tree hash, path
    generation and both verifiers. \<open>Merkle_Verify\<close>, \<open>Merkle_Complete\<close>, \<open>Merkle_Sound\<close> hold the theory of
    the verifiers, \<open>Log_Interface\<close> the locale of an append-only log and its interpretation,
    \<open>Transparency_Props\<close> the properties: generated proofs verify, accepted proofs are sound unless SHA-256
    collides, appends keep all earlier heads, paths are logarithmic.
  \<^item> \<open>Ordered_Map\<close>, \<open>Canonical_Json\<close>: \<open>BTreeMap\<close>, the two backends of \<open>serde_json::Map\<close> and the key sorting of
    \<open>policy.rs\<close> with the copy of it in \<open>main.rs\<close>; \<open>Policy\<close> (\<open>policy.rs\<close>) the policy engine with the scanners for sensitive numbers;
    \<open>Policy_Props\<close>: the decision on every branch, the normal form, the policy hash. \<open>Policy_Reference\<close>: the
    repository's reference \<open>evaluate_policy\<close> (\<open>tools/pzdr_ledger.py\<close>), which runs the published regular
    expressions over the decoded text; on ASCII input the enclave denies what it denies, beyond ASCII not.
  \<^item> \<open>Strings_Rust\<close>: decimal printing and parsing, UTF-8 validity, lines, trimming, big-endian integers.
    \<open>Externals\<close>: the messages on the wire and the record of the crates the program calls.
  \<^item> \<open>Framing\<close>: \<open>read_framed\<close> and \<open>write_framed\<close> of both ends, and the locale both interpret.
  \<^item> \<open>Nsm\<close> (module \<open>enclave\<close> of \<open>crates/nitro-attestation/src/lib.rs\<close>), \<open>Enclave\<close>
    (\<open>services/pzdr-enclave/src/main.rs\<close>): the state, every handler, the dispatcher and one connection;
    \<open>Enclave_Lemmas\<close> the effect of each operation on the state; \<open>Enclave_Session\<close> what a session decides
    before it touches the state; \<open>Enclave_Props\<close> the properties of a session, of the ledger routes, of
    attestation and boot; \<open>Enclave_Client\<close> that a client which follows the protocol is served. A statement's
    identifiers and time come from \<open>take_stamp\<close>; when the clock or \<open>OsRng\<close> fails the task panics after its
    counter is drawn, and that counter never reaches the ledger.
  \<^item> \<open>Enclave_Service\<close>: \<open>main\<close> after boot, a task per connection over the one shared state. A task acts at
    most twice (a query once; an inference request when it draws its counter and when it logs its proof),
    \<open>service_step\<close> interleaves these actions, and a task nobody interrupts does what \<open>handle_conn\<close> does. The
    property is that every later ledger extends the present one and that all tasks come to an end.
    \<open>Enclave_Ledger\<close>: the abstract ledger, a list of signed proofs, and the invariant that relates it to the
    ended connections and the counters drawn. \<open>Enclave_Concurrent\<close>: what the answers show, distinct counters
    and signed heads of one log, both read from the JSON values; and a run in which the ledger's order is not
    the order of the counters.
  \<^item> \<open>Nitro\<close> and \<open>Nitro_Props\<close> (the verifier in \<open>crates/nitro-attestation/src/lib.rs\<close>): parsing, the path to the
    pinned root, CA constraints, signatures, freshness and measurement; \<open>Attested_Channel\<close>: the keys the
    enclave publishes are those the client reads from the document; \<open>Aws_Roots\<close>: the two embedded root
    certificates, of which the commercial one is a complete DER value and the GovCloud one is not.
  \<^item> \<open>Metering\<close> and \<open>Metering_Props\<close> (\<open>crates/marketplace-metering\<close>): events, idempotency key, payload, event
    file, command-line tool.
  \<^item> \<open>Proxy\<close> and \<open>Proxy_Props\<close> (\<open>crates/vsock-parent-proxy/src/main.rs\<close>): forwarding, error mapping, counters,
    and the proxy composed with the enclave. \<open>Proxy_Server\<close>: the process around it, its configuration,
    the effects of \<open>main\<close> in order, the watchdog, the route table and the path of one HTTP request through it.
  \<^item> \<open>Gateway_Calls\<close>: the interface as five calls with the answer each is due, and how the proxy carries a call to
    the enclave and back. \<open>Gateway_Routes\<close>: which call a method and path ask for, said without the proxy's
    table, and that the table forwards exactly those calls with their index; the hypotheses on the router
    are shown to hold of a concrete one. \<open>Gateway_Props\<close>: the gateway refines the interface, both ledger
    queries over HTTP return proofs that verify, and a client that follows the protocol is served over HTTP.

  Conventions. An \<open>Err\<close> is \<open>Inl\<close>, an \<open>Ok\<close> is \<open>Inr\<close>. An outer \<open>option\<close> whose value is \<open>None\<close> stands for a panic of the task
  or a loop that does not end; theorems that something returns say that it is \<open>Some\<close>. State is passed
  explicitly and returned also on errors and panics, because it is shared and outlives the task. Integers
  are words of their width and wrap as in a release build; \<open>usize\<close> is 64 bits. Strings are lists of bytes.
  Third-party code is a parameter: a field of \<open>externals\<close>, \<open>nitro_crates\<close>, \<open>metering_crates\<close>, \<open>proxy_io\<close> or
  \<open>axum_crate\<close>, about which only the named hypotheses of a theorem assume anything (for instance \<open>healthy\<close>: the
  writer accepts the values built, the clock is after the epoch, there are random bytes; or that two given
  strings do not collide under SHA-256). Clocks, random numbers, the NSM device and elapsed times are inputs
  of each call.

  Bounds. Frames are at most 64 MiB, so the length always fits the 32-bit prefix. The loop that finds the
  split of a tree runs on 64-bit words; from 2 up to 2^63 leaves it returns the largest power of two below
  their number, and above it does not end (\<open>split_w_bounds\<close>). Counters are 64-bit words, so they are distinct
  for fewer than 2^64 connections, and so are the sizes a checkpoint states.
  Loops that could run for ever (\<open>random_loop\<close>, \<open>split_loop\<close>) are partial functions, with the conditions
  under which they return; all others are total.

  Not modelled. Logging; the inside of sockets, listeners and timers (a peer that never completes its frame is
  a task that takes no step, and a failing \<open>accept\<close> ends the run of the service); how \<open>axum\<close> matches a path
  and extracts its index, which headers it adds, and how \<open>prometheus\<close> prints its registry, which are
  parameters (\<open>routes_as_documented\<close> states what is relied on, for the seven patterns of the router only); the
  closing of the NSM descriptor; partial writes to a stream; the inside of the
  cryptographic, CBOR, X.509 and JSON crates (for the embedded roots only the RFC 4648 alphabet and the
  DER length header are spelled out); the wiping of memory itself, of which only the reports are modelled;
  and everything that is not Rust, but for \<open>evaluate_policy\<close>. What is left of the Rust files is imports, attributes and tests.
\<close>

end
